theory Spec2Isabelle
  imports Complex_Main "HOL-Library.Sublist" "HOL-Library.AList"
begin

section \<open>Values shared by the whole development\<close>

text \<open>
  Python exceptions are values. Every constructor stands for a subclass of Python's
  \<open>Exception\<close> (the classes an \<open>except Exception\<close> clause catches) and carries the
  text that \<open>str(e)\<close> returns. \<open>LLMError\<close> stands for whatever a vendor call raises.
\<close>

datatype exn =
    ValueError string
  | TypeError string
  | AttributeError string
  | IndexError string
  | KeyError string
  | ZeroDivisionError string
  | OSError string
  | LLMError string


text \<open>
  The values of Python's \<open>Dict[str, Any]\<close> as they come out of \<open>json.load\<close> and of a
  pydantic \<open>.dict()\<close>: a dictionary is an association list in insertion order.
  Floats are exact rationals.
\<close>

datatype json =
    JNull
  | JBool bool
  | JInt int
  | JFloat rat
  | JStr string
  | JList "json list"
  | JDict "(string \<times> json) list"

type_synonym pydict = "(string \<times> json) list"

text \<open>
  A dictionary comprehension \<open>{k: v for ...}\<close>: a later pair with a key already present
  replaces the value in place.
\<close>

definition dict_of :: "('k \<times> 'v) list \<Rightarrow> ('k \<times> 'v) list" where
  "dict_of kvs = foldl (\<lambda>d (k, v). AList.update k v d) [] kvs"

section \<open>Python strings\<close>

text \<open>
  A \<open>str\<close> is a list of code points below 256. \<open>str.lower\<close> moves the upper-case
  letters of that range (A-Z and the accented capitals 192-214, 216-222) up by 32 and
  leaves every other code point alone; \<open>str.strip\<close> removes the white space of that
  range (9-13, 28-32, 133, 160) from both ends; \<open>needle in hay\<close> is substring search.
\<close>

definition lower_char :: "char \<Rightarrow> char" where
  "lower_char c =
     (let n = (of_char c :: nat)
      in if (65 \<le> n \<and> n \<le> 90) \<or> (192 \<le> n \<and> n \<le> 214) \<or> (216 \<le> n \<and> n \<le> 222)
         then char_of (n + 32) else c)"

definition lower :: "string \<Rightarrow> string" where
  "lower s = map lower_char s"

definition isspace :: "char \<Rightarrow> bool" where
  "isspace c =
     (let n = (of_char c :: nat)
      in (9 \<le> n \<and> n \<le> 13) \<or> (28 \<le> n \<and> n \<le> 32) \<or> n = 133 \<or> n = 160)"

definition strip :: "string \<Rightarrow> string" where
  "strip s = rev (dropWhile isspace (rev (dropWhile isspace s)))"

fun str_in :: "string \<Rightarrow> string \<Rightarrow> bool" where
  "str_in needle [] = (needle = [])"
| "str_in needle (c # cs) = (prefix needle (c # cs) \<or> str_in needle cs)"

section \<open>Pricing table (utils/llm\_async/llm.py)\<close>

text \<open>
  \<open>LLM_PRICING\<close> in the insertion order of the source, which is the order in which
  \<open>LLM_PRICING.items()\<close> yields it. Rates are dollars per 1000 tokens.
\<close>

definition LLM_PRICING :: "(string \<times> rat \<times> rat) list" where
  "LLM_PRICING =
    [(''gpt-4.1'', (2 / 1000, 8 / 1000)),
     (''gpt-4'', (3 / 100, 6 / 100)),
     (''gpt-4-turbo'', (1 / 100, 3 / 100)),
     (''gpt-4-turbo-preview'', (1 / 100, 3 / 100)),
     (''gpt-4o'', (5 / 1000, 15 / 1000)),
     (''gpt-4o-mini'', (15 / 100000, 6 / 10000)),
     (''gpt-3.5-turbo'', (15 / 10000, 2 / 1000)),
     (''gpt-3.5-turbo-16k'', (3 / 1000, 4 / 1000)),
     (''anthropic.claude-3-sonnet-20240229-v1:0'', (3 / 1000, 15 / 1000)),
     (''anthropic.claude-3-haiku-20240307-v1:0'', (25 / 100000, 125 / 100000)),
     (''anthropic.claude-3-opus-20240229-v1:0'', (15 / 1000, 75 / 1000)),
     (''anthropic.claude-3-5-sonnet-20240620-v1:0'', (3 / 1000, 15 / 1000)),
     (''anthropic.claude-v2'', (8 / 1000, 24 / 1000)),
     (''anthropic.claude-v2:1'', (8 / 1000, 24 / 1000)),
     (''anthropic.claude-instant-v1'', (8 / 10000, 24 / 10000)),
     (''amazon.titan-text-lite-v1'', (3 / 10000, 4 / 10000)),
     (''amazon.titan-text-express-v1'', (8 / 10000, 16 / 10000)),
     (''default'', (3 / 1000, 15 / 1000))]"

text \<open>
  \<open>LLM_PRICING[key]\<close> for a literal key. Every literal the source subscripts with is in
  the table, so the \<open>KeyError\<close> branch is never taken; it is the default pair here.
\<close>

definition pricing_at :: "string \<Rightarrow> rat \<times> rat" where
  "pricing_at key = (case map_of LLM_PRICING key of Some p \<Rightarrow> p | None \<Rightarrow> (3 / 1000, 15 / 1000))"

text \<open>The \<open>if\<close>/\<open>elif\<close> chain that follows the loop of \<open>get_model_pricing\<close>.\<close>

definition family_pricing :: "string \<Rightarrow> rat \<times> rat" where
  "family_pricing model_name =
     (if str_in ''gpt-4'' model_name then
        (if str_in ''turbo'' model_name \<or> str_in ''preview'' model_name then pricing_at ''gpt-4-turbo''
         else if str_in ''mini'' model_name then pricing_at ''gpt-4o-mini''
         else pricing_at ''gpt-4'')
      else if str_in ''gpt-3.5'' model_name then
        (if str_in ''16k'' model_name then pricing_at ''gpt-3.5-turbo-16k''
         else pricing_at ''gpt-3.5-turbo'')
      else if str_in ''claude-3-5'' model_name then
        pricing_at ''anthropic.claude-3-5-sonnet-20240620-v1:0''
      else if str_in ''claude-3'' model_name then
        (if str_in ''opus'' model_name then pricing_at ''anthropic.claude-3-opus-20240229-v1:0''
         else if str_in ''haiku'' model_name then pricing_at ''anthropic.claude-3-haiku-20240307-v1:0''
         else pricing_at ''anthropic.claude-3-sonnet-20240229-v1:0'')
      else if str_in ''claude'' model_name then
        (if str_in ''instant'' model_name then pricing_at ''anthropic.claude-instant-v1''
         else pricing_at ''anthropic.claude-v2'')
      else if str_in ''titan'' model_name then
        (if str_in ''express'' model_name then pricing_at ''amazon.titan-text-express-v1''
         else pricing_at ''amazon.titan-text-lite-v1'')
      else pricing_at ''default'')"

text \<open>
  \<open>get_model_pricing\<close>: exact lookup of the lower-cased, stripped name; then the first
  table entry, in table order, whose key is not \<open>default\<close> and is a substring of the
  name; then the family chain.
\<close>

definition get_model_pricing :: "string \<Rightarrow> rat \<times> rat" where
  "get_model_pricing model_name =
     (let name = strip (lower model_name)
      in case map_of LLM_PRICING name of
           Some pricing \<Rightarrow> pricing
         | None \<Rightarrow>
            (case find (\<lambda>(model_key, pricing). model_key \<noteq> ''default'' \<and> str_in model_key name)
                       LLM_PRICING of
               Some (model_key, pricing) \<Rightarrow> pricing
             | None \<Rightarrow> family_pricing name))"

section \<open>Batch scheduling (utils/llm\_async/llm.py, bedrock\_llm.py)\<close>

text \<open>
  A batch run is observed through its events: \<open>Start i\<close> when the call for the prompt
  at position \<open>i\<close> is launched and \<open>Finish i\<close> when it completes. The vendor is the
  function \<open>gen\<close>: \<open>gen i prompt\<close> is the outcome of \<open>generate_async\<close> for the prompt at
  position \<open>i\<close>, a response or an exception.
\<close>

datatype event = Start nat | Finish nat

text \<open>
  \<open>await asyncio.gather(*tasks)\<close>. All tasks are launched in the order given. They
  complete in the order \<open>sched\<close> (positions within \<open>tasks\<close>), which the caller cannot
  influence. A result goes into the slot of its task, so the list returned is in launch
  order; the first task that completes with an exception makes \<open>gather\<close> raise it at
  once. When \<open>sched\<close> ends with a slot still empty, a call never completed and
  \<open>gather\<close> never returns: the result is \<open>None\<close>. A position in \<open>sched\<close> that is not a
  task is skipped.
\<close>

fun gather_collect ::
  "nat \<Rightarrow> nat list \<Rightarrow> (exn + 'r) list \<Rightarrow> 'r option list \<Rightarrow> event list \<times> (exn + 'r list) option" where
  "gather_collect base [] outs slots = ([], map_option Inr (those slots))"
| "gather_collect base (j # sched) outs slots =
     (if j < length outs then
        (case outs ! j of
           Inl e \<Rightarrow> ([Finish (base + j)], Some (Inl e))
         | Inr r \<Rightarrow> apfst ((#) (Finish (base + j)))
                     (gather_collect base sched outs (slots[j := Some r])))
      else gather_collect base sched outs slots)"

definition gather ::
  "nat \<Rightarrow> nat list \<Rightarrow> (exn + 'r) list \<Rightarrow> event list \<times> (exn + 'r list) option" where
  "gather base sched outs =
     apfst ((@) (map Start [base ..< base + length outs]))
       (gather_collect base sched outs (replicate (length outs) None))"

text \<open>
  \<open>[self.generate_async(prompt) for prompt in batch]\<close>, for the batch that begins at
  position \<open>i\<close> of the prompt list.
\<close>

definition tasks :: "(nat \<Rightarrow> string \<Rightarrow> exn + 'r) \<Rightarrow> nat \<Rightarrow> string list \<Rightarrow> (exn + 'r) list" where
  "tasks gen i batch = map (\<lambda>(j, prompt). gen j prompt) (enumerate i batch)"

text \<open>
  The loop \<open>for i in range(0, len(prompts), 50)\<close> of \<open>LLMProvider.generate_batch_async\<close>.
  \<open>scheds k\<close> is the completion order of the \<open>k\<close>-th \<open>gather\<close>. An exception or a call
  that never completes ends the loop.
\<close>

function batch_waves ::
  "(nat \<Rightarrow> string \<Rightarrow> exn + 'r) \<Rightarrow> (nat \<Rightarrow> nat list) \<Rightarrow> string list \<Rightarrow> nat \<Rightarrow> 'r list \<Rightarrow>
   event list \<times> (exn + 'r list) option" where
  "batch_waves gen scheds prompts i results =
     (if i < length prompts then
        (let batch = take 50 (drop i prompts)
         in case gather i (scheds (i div 50)) (tasks gen i batch) of
              (ev, Some (Inr batch_results)) \<Rightarrow>
                apfst ((@) ev) (batch_waves gen scheds prompts (i + 50) (results @ batch_results))
            | (ev, Some (Inl e)) \<Rightarrow> (ev, Some (Inl e))
            | (ev, None) \<Rightarrow> (ev, None))
      else ([], Some (Inr results)))"
  by pat_completeness auto
termination
  by (relation "measure (\<lambda>(gen, scheds, prompts, i, results). length prompts - i)") auto

declare batch_waves.simps [simp del]

definition generate_batch_async ::
  "(nat \<Rightarrow> string \<Rightarrow> exn + 'r) \<Rightarrow> (nat \<Rightarrow> nat list) \<Rightarrow> string list \<Rightarrow>
   event list \<times> (exn + 'r list) option" where
  "generate_batch_async gen scheds prompts =
     (if length prompts \<le> 50 then gather 0 (scheds 0) (tasks gen 0 prompts)
      else batch_waves gen scheds prompts 0 [])"

text \<open>
  The Bedrock adapter overrides the method. \<open>uuid4 i\<close> is the text of the \<open>i\<close>-th
  \<open>uuid.uuid4()\<close> drawn; every prompt goes into one \<open>gather\<close>; the pairs returned are
  put into a dictionary and read back by uid.
\<close>

definition generate_async_with_uid ::
  "(nat \<Rightarrow> string \<Rightarrow> exn + 'r) \<Rightarrow> nat \<Rightarrow> string \<Rightarrow> string \<Rightarrow> exn + (string \<times> 'r)" where
  "generate_async_with_uid gen i prompt uid =
     (case gen i prompt of Inl e \<Rightarrow> Inl e | Inr response \<Rightarrow> Inr (uid, response))"

fun subscript_all :: "(string \<times> 'r) list \<Rightarrow> string list \<Rightarrow> exn + 'r list" where
  "subscript_all response_map [] = Inr []"
| "subscript_all response_map (uid # uids) =
     (case map_of response_map uid of
        None \<Rightarrow> Inl (KeyError uid)
      | Some response \<Rightarrow>
          (case subscript_all response_map uids of
             Inl e \<Rightarrow> Inl e
           | Inr ordered_responses \<Rightarrow> Inr (response # ordered_responses)))"

definition bedrock_generate_batch_async ::
  "(nat \<Rightarrow> string \<Rightarrow> exn + 'r) \<Rightarrow> (nat \<Rightarrow> string) \<Rightarrow> nat list \<Rightarrow> string list \<Rightarrow>
   event list \<times> (exn + 'r list) option" where
  "bedrock_generate_batch_async gen uuid4 sched prompts =
     (let prompt_uids = map uuid4 [0 ..< length prompts];
          uid_tasks = map (\<lambda>(i, prompt). generate_async_with_uid gen i prompt (uuid4 i))
                          (enumerate 0 prompts)
      in case gather 0 sched uid_tasks of
           (ev, Some (Inr results)) \<Rightarrow> (ev, Some (subscript_all (dict_of results) prompt_uids))
         | (ev, Some (Inl e)) \<Rightarrow> (ev, Some (Inl e))
         | (ev, None) \<Rightarrow> (ev, None))"

text \<open>
  The calls in flight after a sequence of events: launched and not yet completed.
\<close>

fun started :: "event list \<Rightarrow> nat list" where
  "started [] = []"
| "started (Start i # es) = i # started es"
| "started (Finish i # es) = started es"

definition in_flight :: "event list \<Rightarrow> nat list" where
  "in_flight es = filter (\<lambda>i. Finish i \<notin> set es) (remdups (started es))"

section \<open>Credentialing results (models/credentialing\_result.py)\<close>

datatype ComplianceStatus = COMPLIANT | NON_COMPLIANT | PENDING | FAILED

record HardRegulationResult =
  hr_regulation_id :: string
  hr_regulation_name :: string
  passed :: bool
  hr_details :: pydict
  failure_reason :: "string option"

record SoftRegulationResult =
  sr_regulation_id :: string
  sr_regulation_name :: string
  score :: int
  max_score :: int
  weight :: rat
  weighted_score :: rat
  sr_details :: pydict

section \<open>Aggregation (services/credentialing\_service.py)\<close>

text \<open>
  \<open>_determine_compliance_status\<close>: \<open>if not results: FAILED\<close>, then
  \<open>all(result.passed for result in results)\<close> decides between the other two.
\<close>

definition determine_compliance_status :: "HardRegulationResult list \<Rightarrow> ComplianceStatus" where
  "determine_compliance_status hard_regulation_results =
     (if hard_regulation_results = [] then FAILED
      else if list_all passed hard_regulation_results then COMPLIANT
      else NON_COMPLIANT)"

text \<open>
  Python's \<open>round\<close> to an integer: to the nearest, a tie to the even neighbour.
\<close>

definition py_round :: "rat \<Rightarrow> int" where
  "py_round x =
     (let f = \<lfloor>x\<rfloor>; d = x - of_int f
      in if d < 1 / 2 then f
         else if 1 / 2 < d then f + 1
         else if even f then f else f + 1)"

text \<open>
  \<open>_calculate_overall_score\<close> sums the stored \<open>weighted_score\<close> and \<open>weight\<close> fields.
\<close>

definition calculate_overall_score :: "SoftRegulationResult list \<Rightarrow> int" where
  "calculate_overall_score soft_regulation_results =
     (if soft_regulation_results = [] then 1
      else
        let total_weighted_score = sum_list (map weighted_score soft_regulation_results);
            total_weight = sum_list (map weight soft_regulation_results)
        in if total_weight = 0 then 1
           else max 1 (min 5 (py_round (total_weighted_score / total_weight))))"

section \<open>Regulations and the deterministic rule check\<close>

text \<open>
  A regulation is the dictionary that \<open>_load_regulations\<close> reads, with the shape of
  models/regulation.py: \<open>id\<close> and \<open>name\<close> are strings, \<open>data_fields\<close> a list of
  strings, \<open>validation_criteria\<close> a dictionary. The two keys the service reads with
  \<open>.get(key, default)\<close> may be absent (\<open>None\<close>).
\<close>

record regulation =
  reg_id :: string
  reg_name :: string
  data_fields :: "string list option"
  validation_criteria :: "pydict option"

definition has_key :: "string \<Rightarrow> pydict \<Rightarrow> bool" where
  "has_key k d = (map_of d k \<noteq> None)"

text \<open>
  \<open>obj.get(key, default)\<close> exists on dictionaries only; \<open>len(obj)\<close> on strings, lists
  and dictionaries only.
\<close>

definition dict_get :: "json \<Rightarrow> string \<Rightarrow> json \<Rightarrow> exn + json" where
  "dict_get obj key dflt =
     (case obj of
        JDict d \<Rightarrow> Inr (case map_of d key of Some v \<Rightarrow> v | None \<Rightarrow> dflt)
      | _ \<Rightarrow> Inl (AttributeError ''object has no attribute get''))"

definition py_len :: "json \<Rightarrow> exn + nat" where
  "py_len obj =
     (case obj of
        JStr s \<Rightarrow> Inr (length s)
      | JList xs \<Rightarrow> Inr (length xs)
      | JDict d \<Rightarrow> Inr (length d)
      | _ \<Rightarrow> Inl (TypeError ''object has no len()''))"

definition bind_exn :: "exn + 'a \<Rightarrow> ('a \<Rightarrow> exn + 'b) \<Rightarrow> exn + 'b" where
  "bind_exn m f = (case m of Inl e \<Rightarrow> Inl e | Inr x \<Rightarrow> f x)"

text \<open>
  The four checks of \<open>_validate_hard_regulation\<close> that can \<open>return False\<close>. Each
  yields \<open>Inr False\<close> where the source returns \<open>False\<close>, \<open>Inr True\<close> where control
  falls through to the next check, and \<open>Inl\<close> where a Python operation raises.
\<close>

definition check_disciplinary_actions :: "pydict \<Rightarrow> pydict \<Rightarrow> exn + bool" where
  "check_disciplinary_actions criteria data =
     (if has_key ''disciplinary_actions'' criteria then
        (case map_of data ''Disclosure'' of
           None \<Rightarrow> Inr True
         | Some disclosure \<Rightarrow>
             bind_exn (dict_get disclosure ''disciplinary_actions'' (JList [])) (\<lambda>disciplinary_actions.
             bind_exn (py_len disciplinary_actions) (\<lambda>n. Inr (\<not> 0 < n))))
      else Inr True)"

definition check_malpractice_insurance :: "pydict \<Rightarrow> pydict \<Rightarrow> exn + bool" where
  "check_malpractice_insurance criteria data =
     (if has_key ''malpractice_insurance'' criteria then
        (case map_of data ''PLIs'' of
           None \<Rightarrow> Inr True
         | Some plis \<Rightarrow>
             bind_exn (dict_get plis ''malpractice_insurance'' (JStr '''')) (\<lambda>insurance_status.
             Inr (\<not> insurance_status \<noteq> JStr ''Active'')))
      else Inr True)"

definition check_board_certification :: "pydict \<Rightarrow> pydict \<Rightarrow> exn + bool" where
  "check_board_certification criteria data =
     (if has_key ''board_certification'' criteria then
        (case map_of data ''BoardCertifications'' of
           None \<Rightarrow> Inr True
         | Some board \<Rightarrow>
             bind_exn (dict_get board ''board_certifications'' (JList [])) (\<lambda>certifications.
             bind_exn (py_len certifications) (\<lambda>n. Inr (\<not> n = 0))))
      else Inr True)"

definition check_criminal_record :: "pydict \<Rightarrow> pydict \<Rightarrow> exn + bool" where
  "check_criminal_record criteria data =
     (if has_key ''criminal_record'' criteria then
        (case map_of data ''Disclosure'' of
           None \<Rightarrow> Inr True
         | Some disclosure \<Rightarrow>
             bind_exn (dict_get disclosure ''criminal_record'' (JStr '''')) (\<lambda>criminal_record.
             Inr (\<not> criminal_record \<noteq> JStr ''Clean'')))
      else Inr True)"

text \<open>The checks run in order; the first that raises or returns \<open>False\<close> ends the run.\<close>

fun run_checks :: "(exn + bool) list \<Rightarrow> exn + bool" where
  "run_checks [] = Inr True"
| "run_checks (c # cs) =
     (case c of Inl e \<Rightarrow> Inl e | Inr ok \<Rightarrow> if ok then run_checks cs else Inr False)"

text \<open>
  \<open>_validate_hard_regulation\<close>: a regulation with a \<open>license_status\<close> criterion passes
  at once when the data has \<open>ProfessionalIds\<close>; otherwise the four checks decide.
\<close>

definition validate_hard_regulation :: "regulation \<Rightarrow> pydict \<Rightarrow> exn + bool" where
  "validate_hard_regulation regulation data =
     (let criteria = (case validation_criteria regulation of None \<Rightarrow> [] | Some c \<Rightarrow> c)
      in if has_key ''license_status'' criteria \<and> has_key ''ProfessionalIds'' data then Inr True
         else run_checks
                [check_disciplinary_actions criteria data,
                 check_malpractice_insurance criteria data,
                 check_board_certification criteria data,
                 check_criminal_record criteria data])"

text \<open>
  \<open>_parse_hard_regulation_response\<close>. The fallback calls the validator with the empty
  dictionary \<open>{}\<close>, as the source does.
\<close>

definition parse_hard_regulation_response :: "string \<Rightarrow> regulation \<Rightarrow> exn + bool" where
  "parse_hard_regulation_response response_content regulation =
     (let response_lower = strip (lower response_content)
      in if str_in ''pass'' response_lower \<and> \<not> str_in ''fail'' response_lower then Inr True
         else if str_in ''fail'' response_lower then Inr False
         else validate_hard_regulation regulation [])"

section \<open>The credentialing result and its serialisation\<close>

text \<open>
  \<open>CredentialingResult\<close> of models/credentialing\_result.py. The time stamp is the
  ISO-8601 text that \<open>to_dict\<close> emits; the two dictionaries keyed by regulation id are
  association lists in insertion order.
\<close>

record CredentialingResult =
  provider_id :: string
  timestamp :: string
  cr_score :: int
  compliance_status :: ComplianceStatus
  hard_regulations :: "(string \<times> bool) list"
  soft_regulations :: "(string \<times> int) list"
  mapped_data :: pydict
  verification_details :: pydict
  hard_regulation_results :: "HardRegulationResult list"
  soft_regulation_results :: "SoftRegulationResult list"
  llm_usage :: pydict
  processing_time :: rat
  errors :: "string list"
  warnings :: "string list"

text \<open>\<open>ComplianceStatus.value\<close>.\<close>

fun status_value :: "ComplianceStatus \<Rightarrow> string" where
  "status_value COMPLIANT = ''COMPLIANT''"
| "status_value NON_COMPLIANT = ''NON_COMPLIANT''"
| "status_value PENDING = ''PENDING''"
| "status_value FAILED = ''FAILED''"

text \<open>\<open>is_compliant\<close>: \<open>all(self.hard_regulations.values())\<close>.\<close>

definition is_compliant :: "CredentialingResult \<Rightarrow> bool" where
  "is_compliant r = list_all (\<lambda>v. v) (map snd (hard_regulations r))"

text \<open>
  \<open>get_overall_score\<close>: \<open>round(x, 2)\<close> is rounding of the hundredths to the nearest,
  ties to even.
\<close>

definition get_overall_score :: "CredentialingResult \<Rightarrow> rat" where
  "get_overall_score r =
     (if soft_regulation_results r = [] then 0
      else
        let total_weighted_score = sum_list (map weighted_score (soft_regulation_results r));
            total_weight = sum_list (map weight (soft_regulation_results r))
        in if total_weight = 0 then 0
           else of_int (py_round (total_weighted_score / total_weight * 100)) / 100)"

definition to_dict :: "CredentialingResult \<Rightarrow> pydict" where
  "to_dict r =
     [(''provider_id'', JStr (provider_id r)),
      (''timestamp'', JStr (timestamp r)),
      (''score'', JInt (cr_score r)),
      (''compliance_status'', JStr (status_value (compliance_status r))),
      (''hard_regulations'', JDict (map (\<lambda>(k, v). (k, JBool v)) (hard_regulations r))),
      (''soft_regulations'', JDict (map (\<lambda>(k, v). (k, JInt v)) (soft_regulations r))),
      (''mapped_data'', JDict (mapped_data r)),
      (''verification_details'', JDict (verification_details r)),
      (''overall_score'', JFloat (get_overall_score r)),
      (''is_compliant'', JBool (is_compliant r)),
      (''processing_time'', JFloat (processing_time r)),
      (''errors'', JList (map JStr (errors r))),
      (''warnings'', JList (map JStr (warnings r)))]"

definition zero_usage :: pydict where
  "zero_usage = [(''total_requests'', JInt 0), (''total_tokens'', JInt 0), (''total_cost'', JFloat 0)]"

text \<open>
  Steps 5 and 6 of \<open>credential_provider\<close>: the result built from the two lists of
  regulation results. \<open>now\<close> is the time stamp and \<open>elapsed\<close> the processing time.
\<close>

definition build_result ::
  "string \<Rightarrow> string \<Rightarrow> rat \<Rightarrow> pydict \<Rightarrow> pydict \<Rightarrow> HardRegulationResult list \<Rightarrow>
   SoftRegulationResult list \<Rightarrow> CredentialingResult" where
  "build_result pid now elapsed mapped verification hard_results soft_results =
     \<lparr>provider_id = pid,
      timestamp = now,
      cr_score = calculate_overall_score soft_results,
      compliance_status = determine_compliance_status hard_results,
      hard_regulations = dict_of (map (\<lambda>result. (hr_regulation_id result, passed result)) hard_results),
      soft_regulations = dict_of (map (\<lambda>result. (sr_regulation_id result, score result)) soft_results),
      mapped_data = mapped,
      verification_details = verification,
      hard_regulation_results = hard_results,
      soft_regulation_results = soft_results,
      llm_usage = zero_usage,
      processing_time = elapsed,
      errors = [],
      warnings = []\<rparr>"


section \<open>The response envelope (utils/llm\_async/llm.py)\<close>

record LLMResponse =
  content :: string
  input_tokens :: int
  output_tokens :: int
  total_tokens :: int
  model_name :: string
  input_cost :: rat
  output_cost :: rat
  total_cost :: rat

text \<open>\<open>LLMResponse.__init__\<close>: the costs come from the token counts and the pricing table.\<close>

definition LLMResponse_init :: "string \<Rightarrow> int \<Rightarrow> int \<Rightarrow> int \<Rightarrow> string \<Rightarrow> LLMResponse" where
  "LLMResponse_init c n_in n_out n_total name =
     (let (input_cost_per_1k, output_cost_per_1k) = get_model_pricing name;
          ic = of_int n_in / 1000 * input_cost_per_1k;
          oc = of_int n_out / 1000 * output_cost_per_1k
      in \<lparr>content = c, input_tokens = n_in, output_tokens = n_out, total_tokens = n_total,
          model_name = name, input_cost = ic, output_cost = oc, total_cost = ic + oc\<rparr>)"

section \<open>The hard-regulation phase (services/credentialing\_service.py)\<close>

text \<open>
  \<open>_extract_regulation_data\<close>: the provider sections named by the regulation's
  \<open>data_fields\<close>, then the verification details under the key \<open>verification\<close> when
  that dictionary is not empty.
\<close>

definition extract_regulation_data :: "regulation \<Rightarrow> pydict \<Rightarrow> pydict \<Rightarrow> pydict" where
  "extract_regulation_data regulation provider_data verification =
     (let fields = (case data_fields regulation of None \<Rightarrow> [] | Some fs \<Rightarrow> fs);
          relevant_data =
            foldl (\<lambda>d field. case map_of provider_data field of
                                 Some v \<Rightarrow> AList.update field v d
                               | None \<Rightarrow> d) [] fields
      in if verification \<noteq> [] then AList.update ''verification'' (JDict verification) relevant_data
         else relevant_data)"

text \<open>The \<open>HardRegulationResult\<close> that both loops of \<open>_check_hard_regulations\<close> build.\<close>

definition hard_result :: "regulation \<Rightarrow> pydict \<Rightarrow> bool \<Rightarrow> HardRegulationResult" where
  "hard_result regulation relevant_data p =
     \<lparr>hr_regulation_id = reg_id regulation,
      hr_regulation_name = reg_name regulation,
      passed = p,
      hr_details = relevant_data,
      failure_reason =
        (if p then None else Some (''Failed to meet '' @ reg_name regulation @ '' requirements''))\<rparr>"

text \<open>
  The loop of the \<open>try\<close> block over \<open>enumerate(llm_responses)\<close>. \<open>results\<close> is
  appended to in place, so an exception leaves the results built so far in the list:
  the loop yields the list together with the exception, if any.
  \<open>regulation_data[i]\<close> raises \<open>IndexError\<close> when there are more responses than
  regulations.
\<close>

fun process_hard_responses ::
  "(regulation \<times> pydict) list \<Rightarrow> nat \<Rightarrow> LLMResponse list \<Rightarrow> HardRegulationResult list \<Rightarrow>
   HardRegulationResult list \<times> exn option" where
  "process_hard_responses regulation_data i [] results = (results, None)"
| "process_hard_responses regulation_data i (response # rest) results =
     (if i < length regulation_data then
        (case regulation_data ! i of (regulation, relevant_data) \<Rightarrow>
          (case parse_hard_regulation_response (content response) regulation of
             Inl e \<Rightarrow> (results, Some e)
           | Inr p \<Rightarrow> process_hard_responses regulation_data (i + 1) rest
                        (results @ [hard_result regulation relevant_data p])))
      else (results, Some (IndexError ''list index out of range'')))"

text \<open>
  The loop of the \<open>except\<close> clause: every regulation is checked by the deterministic
  rule on its extracted data. An exception raised here leaves the method.
\<close>

fun fallback_hard ::
  "regulation list \<Rightarrow> pydict \<Rightarrow> pydict \<Rightarrow> HardRegulationResult list \<Rightarrow>
   exn + HardRegulationResult list" where
  "fallback_hard [] provider_data verification results = Inr results"
| "fallback_hard (regulation # rest) provider_data verification results =
     (let relevant_data = extract_regulation_data regulation provider_data verification
      in case validate_hard_regulation regulation relevant_data of
           Inl e \<Rightarrow> Inl e
         | Inr p \<Rightarrow> fallback_hard rest provider_data verification
                      (results @ [hard_result regulation relevant_data p]))"

text \<open>
  \<open>_check_hard_regulations\<close>. \<open>prompt_of\<close> is \<open>_create_hard_regulation_prompt\<close> and
  \<open>batch\<close> is \<open>await self.llm_provider.generate_batch_async(prompts)\<close>. The reasoning
  text requested from the model for the log does not reach the results (and a failure
  of that request is caught where it is made), so it is left out, as is logging.
\<close>

definition hard_regulation_data :: "regulation list \<Rightarrow> pydict \<Rightarrow> pydict \<Rightarrow> (regulation \<times> pydict) list" where
  "hard_regulation_data regs provider_data verification =
     map (\<lambda>regulation. (regulation, extract_regulation_data regulation provider_data verification)) regs"

definition hard_regulation_prompts ::
  "(regulation \<Rightarrow> pydict \<Rightarrow> pydict \<Rightarrow> string) \<Rightarrow> regulation list \<Rightarrow> pydict \<Rightarrow> pydict \<Rightarrow> string list" where
  "hard_regulation_prompts prompt_of regs provider_data verification =
     map (\<lambda>(regulation, relevant_data). prompt_of regulation provider_data relevant_data)
         (hard_regulation_data regs provider_data verification)"

definition check_hard_regulations ::
  "(regulation \<Rightarrow> pydict \<Rightarrow> pydict \<Rightarrow> string) \<Rightarrow> (string list \<Rightarrow> exn + LLMResponse list) \<Rightarrow>
   regulation list \<Rightarrow> pydict \<Rightarrow> pydict \<Rightarrow> exn + HardRegulationResult list" where
  "check_hard_regulations prompt_of batch regs provider_data verification =
     (case batch (hard_regulation_prompts prompt_of regs provider_data verification) of
        Inl e \<Rightarrow> fallback_hard regs provider_data verification []
      | Inr llm_responses \<Rightarrow>
          (case process_hard_responses (hard_regulation_data regs provider_data verification)
                  0 llm_responses [] of
             (results, None) \<Rightarrow> Inr results
           | (results, Some e) \<Rightarrow> fallback_hard regs provider_data verification results))"

text \<open>
  The sections of the provider data that the rule check reads, with the shape that
  models/provider.py gives them: \<open>Disclosure\<close>, \<open>PLIs\<close> and \<open>BoardCertifications\<close>
  are dictionaries, \<open>disciplinary_actions\<close> and \<open>board_certifications\<close> are lists.
\<close>

fun is_list_entry :: "json option \<Rightarrow> bool" where
  "is_list_entry None = True"
| "is_list_entry (Some (JList xs)) = True"
| "is_list_entry (Some v) = False"

fun section_shape :: "string list \<Rightarrow> json option \<Rightarrow> bool" where
  "section_shape list_keys None = True"
| "section_shape list_keys (Some (JDict d)) = list_all (\<lambda>k. is_list_entry (map_of d k)) list_keys"
| "section_shape list_keys (Some v) = False"

definition provider_shape :: "pydict \<Rightarrow> bool" where
  "provider_shape data =
     (section_shape [''disciplinary_actions''] (map_of data ''Disclosure'')
      \<and> section_shape [] (map_of data ''PLIs'')
      \<and> section_shape [''board_certifications''] (map_of data ''BoardCertifications''))"

section \<open>The orchestrator (services/credentialing\_service.py)\<close>







section \<open>Example inputs\<close>

text \<open>A vendor that answers every prompt with the prompt itself, and uids u, uu, uuu, ...\<close>

definition echo :: "nat \<Rightarrow> string \<Rightarrow> exn + string" where
  "echo i prompt = Inr prompt"

definition unary_uid :: "nat \<Rightarrow> string" where
  "unary_uid i = replicate (Suc i) CHR ''u''"

text \<open>
  A provider whose insurance has lapsed, two hard regulations, a vendor that is down, and
  a service with one provider whose log directory has no subdirectories, so that the
  log file of a provider id containing a slash cannot be opened.
\<close>

definition lapsed_provider :: pydict where
  "lapsed_provider =
     [(''provider_id'', JStr ''P001''),
      (''PLIs'', JDict [(''malpractice_insurance'', JStr ''Lapsed'')]),
      (''Disclosure'', JDict [(''disciplinary_actions'', JList []), (''criminal_record'', JStr ''Clean'')])]"

definition insurance_regulation :: regulation where
  "insurance_regulation =
     \<lparr>reg_id = ''HR003'', reg_name = ''Malpractice Insurance'', data_fields = Some [''PLIs''],
      validation_criteria = Some [(''malpractice_insurance'', JStr ''Active'')]\<rparr>"

definition disclosure_regulation :: regulation where
  "disclosure_regulation =
     \<lparr>reg_id = ''HR002'', reg_name = ''Disciplinary Actions'', data_fields = Some [''Disclosure''],
      validation_criteria = Some [(''disciplinary_actions'', JStr ''None'')]\<rparr>"

definition vendor_down :: "string list \<Rightarrow> exn + LLMResponse list" where
  "vendor_down prompts = Inl (LLMError ''connection refused'')"

definition plain_prompt :: "regulation \<Rightarrow> pydict \<Rightarrow> pydict \<Rightarrow> string" where
  "plain_prompt regulation provider_data relevant_data = ''REGULATION: '' @ reg_id regulation"


section \<open>Substring search and stripping\<close>

lemma str_in_sublist: "str_in n s = sublist n s"
  by (induction s) (auto simp: sublist_Cons_right)

lemma str_in_dropWhile:
  assumes "n \<noteq> []" and "\<forall>c \<in> set n. \<not> P c"
  shows "str_in n (dropWhile P s) = str_in n s"
proof (induction s)
  case Nil
  then show ?case by simp
next
  case (Cons x s)
  show ?case
  proof (cases "P x")
    case True
    from assms obtain c n' where n: "n = c # n'" and c: "\<not> P c"
      by (cases n) auto
    with True have "\<not> prefix n (x # s)" by auto
    with True Cons show ?thesis by simp
  next
    case False
    then show ?thesis by simp
  qed
qed

lemma str_in_strip:
  assumes "n \<noteq> []" and "\<forall>c \<in> set n. \<not> isspace c"
  shows "str_in n (strip s) = str_in n s"
proof -
  have r: "rev n \<noteq> []" "\<forall>c \<in> set (rev n). \<not> isspace c"
    using assms by auto
  have "str_in n (strip s) = str_in (rev n) (dropWhile isspace (rev (dropWhile isspace s)))"
    by (simp add: strip_def str_in_sublist sublist_rev_left)
  also have "\<dots> = str_in (rev n) (rev (dropWhile isspace s))"
    by (rule str_in_dropWhile [OF r])
  also have "\<dots> = str_in n (dropWhile isspace s)"
    by (simp add: str_in_sublist)
  also have "\<dots> = str_in n s"
    by (rule str_in_dropWhile [OF assms])
  finally show ?thesis .
qed

lemma str_in_pass_strip: "str_in ''pass'' (strip s) = str_in ''pass'' s"
  by (rule str_in_strip) (simp_all add: isspace_def)

lemma str_in_fail_strip: "str_in ''fail'' (strip s) = str_in ''fail'' s"
  by (rule str_in_strip) (simp_all add: isspace_def)

lemma checks_empty_data:
  "check_disciplinary_actions criteria [] = Inr True"
  "check_malpractice_insurance criteria [] = Inr True"
  "check_board_certification criteria [] = Inr True"
  "check_criminal_record criteria [] = Inr True"
  by (simp_all add: check_disciplinary_actions_def check_malpractice_insurance_def
      check_board_certification_def check_criminal_record_def)

lemma validate_empty_data: "validate_hard_regulation regulation [] = Inr True"
  by (simp add: validate_hard_regulation_def has_key_def checks_empty_data)

section \<open>Compliance status\<close>

text \<open>
  Claim C6. For every list of hard-regulation results the status is COMPLIANT exactly
  when the list is non-empty and every result passed; it is NON_COMPLIANT when the list
  is non-empty and some result did not pass; and it is FAILED, not COMPLIANT, when the
  list is empty.
\<close>

theorem compliance_status_cases:
  "(determine_compliance_status rs = COMPLIANT \<longleftrightarrow> rs \<noteq> [] \<and> (\<forall>r \<in> set rs. passed r))
   \<and> (rs \<noteq> [] \<and> (\<exists>r \<in> set rs. \<not> passed r) \<longrightarrow> determine_compliance_status rs = NON_COMPLIANT)
   \<and> (rs = [] \<longrightarrow> determine_compliance_status rs = FAILED \<and> determine_compliance_status rs \<noteq> COMPLIANT)"
  by (auto simp: determine_compliance_status_def list_all_iff)

theorem compliance_status_cases_witness:
  "determine_compliance_status
     [\<lparr>hr_regulation_id = ''HR001'', hr_regulation_name = ''Medical License'', passed = True,
       hr_details = [], failure_reason = None\<rparr>,
      \<lparr>hr_regulation_id = ''HR002'', hr_regulation_name = ''Disciplinary Actions'', passed = False,
       hr_details = [], failure_reason = Some ''Failed to meet Disciplinary Actions requirements''\<rparr>]
     = NON_COMPLIANT
   \<and> determine_compliance_status [] = FAILED
   \<and> determine_compliance_status
     [\<lparr>hr_regulation_id = ''HR001'', hr_regulation_name = ''Medical License'', passed = True,
       hr_details = [], failure_reason = None\<rparr>] = COMPLIANT"
  using compliance_status_cases
    [of "[\<lparr>hr_regulation_id = ''HR001'', hr_regulation_name = ''Medical License'', passed = True,
       hr_details = [], failure_reason = None\<rparr>,
      \<lparr>hr_regulation_id = ''HR002'', hr_regulation_name = ''Disciplinary Actions'', passed = False,
       hr_details = [], failure_reason = Some ''Failed to meet Disciplinary Actions requirements''\<rparr>]"]
    compliance_status_cases [of "[]"]
    compliance_status_cases
    [of "[\<lparr>hr_regulation_id = ''HR001'', hr_regulation_name = ''Medical License'', passed = True,
       hr_details = [], failure_reason = None\<rparr>]"]
  by simp

section \<open>Pricing resolution\<close>

lemma pricing_literals_present:
  "map_of LLM_PRICING ''gpt-4-turbo'' = Some (1 / 100, 3 / 100)"
  "map_of LLM_PRICING ''gpt-4'' = Some (3 / 100, 6 / 100)"
  "map_of LLM_PRICING ''default'' = Some (3 / 1000, 15 / 1000)"
  by (simp_all add: LLM_PRICING_def)

text \<open>
  Claim C8 says that the name \<open>gpt-4-turbo-preview-custom\<close> resolves to the gpt-4-turbo
  pair (0.01, 0.03). The substring loop walks the table in insertion order and
  \<open>gpt-4\<close>, the second entry, is already a substring of the name: the function returns
  the gpt-4 pair (0.03, 0.06). The family chain, which would give the gpt-4-turbo pair,
  is never reached for this name.
\<close>

theorem pricing_gpt4_turbo_custom:
  "get_model_pricing ''gpt-4-turbo-preview-custom'' = (3 / 100, 6 / 100)
   \<and> pricing_at ''gpt-4-turbo'' = (1 / 100, 3 / 100)
   \<and> family_pricing ''gpt-4-turbo-preview-custom'' = (1 / 100, 3 / 100)"
  by code_simp

section \<open>Parsing a hard-regulation response\<close>

lemma lower_tie_break_text:
  "lower ''The provider clearly does not FAIL any check. PASS.''
     = ''the provider clearly does not fail any check. pass.''"
  by code_simp

lemma fail_in_tie_break_text:
  "str_in ''fail'' ''the provider clearly does not fail any check. pass.''"
  by code_simp

lemma parse_unfold:
  "parse_hard_regulation_response c reg =
     (if str_in ''pass'' (lower c) \<and> \<not> str_in ''fail'' (lower c) then Inr True
      else if str_in ''fail'' (lower c) then Inr False
      else validate_hard_regulation reg [])"
  by (simp add: parse_hard_regulation_response_def str_in_pass_strip str_in_fail_strip)

text \<open>
  Claim C5. For every response text: when the lower-cased text contains \<open>fail\<close> the
  result is \<open>False\<close>, also when \<open>pass\<close> is present; when it contains \<open>pass\<close> and not
  \<open>fail\<close> the result is \<open>True\<close>; when it contains neither, the result is what the
  deterministic rule check returns for that regulation (the source calls it on the
  empty data dictionary). The text
  "The provider clearly does not FAIL any check. PASS." parses to \<open>False\<close>.
\<close>

theorem parse_hard_regulation_response_priority:
  "(str_in ''fail'' (lower c) \<longrightarrow> parse_hard_regulation_response c reg = Inr False)
   \<and> (str_in ''pass'' (lower c) \<and> \<not> str_in ''fail'' (lower c)
        \<longrightarrow> parse_hard_regulation_response c reg = Inr True)
   \<and> (\<not> str_in ''pass'' (lower c) \<and> \<not> str_in ''fail'' (lower c)
        \<longrightarrow> parse_hard_regulation_response c reg = validate_hard_regulation reg [])
   \<and> parse_hard_regulation_response
        ''The provider clearly does not FAIL any check. PASS.'' reg = Inr False"
  by (simp add: parse_unfold lower_tie_break_text fail_in_tie_break_text)

theorem parse_hard_regulation_response_priority_witness:
  "parse_hard_regulation_response ''PASS, but the licence check would FAIL next year''
     \<lparr>reg_id = ''HR001'', reg_name = ''Medical License'', data_fields = Some [''ProfessionalIds''],
      validation_criteria = Some [(''license_status'', JStr ''Active'')]\<rparr> = Inr False
   \<and> parse_hard_regulation_response ''PASS - licence is active''
     \<lparr>reg_id = ''HR001'', reg_name = ''Medical License'', data_fields = Some [''ProfessionalIds''],
      validation_criteria = Some [(''license_status'', JStr ''Active'')]\<rparr> = Inr True
   \<and> parse_hard_regulation_response ''I cannot tell''
     \<lparr>reg_id = ''HR001'', reg_name = ''Medical License'', data_fields = Some [''ProfessionalIds''],
      validation_criteria = Some [(''license_status'', JStr ''Active'')]\<rparr>
     = validate_hard_regulation
     \<lparr>reg_id = ''HR001'', reg_name = ''Medical License'', data_fields = Some [''ProfessionalIds''],
      validation_criteria = Some [(''license_status'', JStr ''Active'')]\<rparr> []"
proof -
  have a: "str_in ''fail'' (lower ''PASS, but the licence check would FAIL next year'')"
    by code_simp
  have b: "str_in ''pass'' (lower ''PASS - licence is active'')
           \<and> \<not> str_in ''fail'' (lower ''PASS - licence is active'')"
    by code_simp
  have c: "\<not> str_in ''pass'' (lower ''I cannot tell'') \<and> \<not> str_in ''fail'' (lower ''I cannot tell'')"
    by code_simp
  show ?thesis
    using a b c
      parse_hard_regulation_response_priority
        [of "''PASS, but the licence check would FAIL next year''"]
      parse_hard_regulation_response_priority [of "''PASS - licence is active''"]
      parse_hard_regulation_response_priority [of "''I cannot tell''"]
    by blast
qed

section \<open>The rule check on the empty data dictionary\<close>

text \<open>
  Claim C9. For every regulation the deterministic validator returns \<open>True\<close> on the
  empty data dictionary, since each criterion branch needs its data key. So a response
  that contains neither \<open>pass\<close> nor \<open>fail\<close> parses to \<open>True\<close> for every regulation:
  the per-item fallback calls the validator with \<open>{}\<close>, not with the regulation's
  extracted data.
\<close>

theorem unparseable_response_passes:
  "validate_hard_regulation reg [] = Inr True
   \<and> (\<not> str_in ''pass'' (lower c) \<and> \<not> str_in ''fail'' (lower c)
        \<longrightarrow> parse_hard_regulation_response c reg = Inr True)"
  by (simp add: parse_unfold validate_empty_data)

theorem unparseable_response_passes_witness:
  "parse_hard_regulation_response ''The insurance lapsed in March.''
     \<lparr>reg_id = ''HR003'', reg_name = ''Malpractice Insurance'', data_fields = Some [''PLIs''],
      validation_criteria = Some [(''malpractice_insurance'', JStr ''Active'')]\<rparr> = Inr True
   \<and> validate_hard_regulation
     \<lparr>reg_id = ''HR003'', reg_name = ''Malpractice Insurance'', data_fields = Some [''PLIs''],
      validation_criteria = Some [(''malpractice_insurance'', JStr ''Active'')]\<rparr>
     [(''PLIs'', JDict [(''malpractice_insurance'', JStr ''Lapsed'')])] = Inr False"
proof -
  have a: "\<not> str_in ''pass'' (lower ''The insurance lapsed in March.'')
           \<and> \<not> str_in ''fail'' (lower ''The insurance lapsed in March.'')"
    by code_simp
  have b: "validate_hard_regulation
     \<lparr>reg_id = ''HR003'', reg_name = ''Malpractice Insurance'', data_fields = Some [''PLIs''],
      validation_criteria = Some [(''malpractice_insurance'', JStr ''Active'')]\<rparr>
     [(''PLIs'', JDict [(''malpractice_insurance'', JStr ''Lapsed'')])] = Inr False"
    by code_simp
  show ?thesis
    using a b unparseable_response_passes [of _ "''The insurance lapsed in March.''"]
    by blast
qed

section \<open>Overall score\<close>





section \<open>Compliance flag of a result with no hard regulations\<close>

lemma dict_of_empty: "dict_of [] = []"
  by (simp add: dict_of_def)

text \<open>
  Claim C10. \<open>is_compliant\<close> is \<open>True\<close> whenever the \<open>hard_regulations\<close> dictionary
  is empty, so the result that \<open>credential_provider\<close> builds from an empty list of
  hard-regulation results serialises with \<open>is_compliant\<close> true although its
  \<open>compliance_status\<close> is FAILED.
\<close>

theorem empty_hard_regulations_is_compliant:
  "is_compliant (r\<lparr>hard_regulations := []\<rparr>)
   \<and> compliance_status (build_result pid now elapsed mapped verification [] soft_results) = FAILED
   \<and> map_of (to_dict (build_result pid now elapsed mapped verification [] soft_results))
        ''is_compliant'' = Some (JBool True)
   \<and> map_of (to_dict (build_result pid now elapsed mapped verification [] soft_results))
        ''compliance_status'' = Some (JStr ''FAILED'')"
  by (simp add: is_compliant_def build_result_def to_dict_def dict_of_empty
      determine_compliance_status_def)

section \<open>Facts about gather\<close>

lemma those_eq_Some: "those xs = Some ys \<longleftrightarrow> xs = map Some ys"
  by (induction xs arbitrary: ys) (auto split: option.splits)

lemma gather_collect_Inr:
  assumes "snd (gather_collect base sched outs slots) = Some (Inr rs)"
    and "length slots = length outs"
    and "\<forall>j<length outs. \<forall>r. slots ! j = Some r \<longrightarrow> outs ! j = Inr r"
  shows "length rs = length outs \<and> (\<forall>j<length outs. outs ! j = Inr (rs ! j))"
  using assms
proof (induction sched arbitrary: slots)
  case Nil
  then have "slots = map Some rs"
    by (auto simp: those_eq_Some)
  with Nil show ?case by auto
next
  case (Cons j sched)
  show ?case
  proof (cases "j < length outs")
    case False
    with Cons.prems have "snd (gather_collect base sched outs slots) = Some (Inr rs)"
      by simp
    from Cons.IH [OF this Cons.prems(2,3)] show ?thesis .
  next
    case True
    show ?thesis
    proof (cases "outs ! j")
      case (Inl e)
      with True Cons.prems show ?thesis by simp
    next
      case (Inr r)
      with True Cons.prems
      have a: "snd (gather_collect base sched outs (slots[j := Some r])) = Some (Inr rs)"
        by simp
      have b: "length (slots[j := Some r]) = length outs"
        using Cons.prems by simp
      have c: "\<forall>k<length outs. \<forall>q. slots[j := Some r] ! k = Some q \<longrightarrow> outs ! k = Inr q"
      proof (intro allI impI)
        fix k q assume k: "k < length outs" "slots[j := Some r] ! k = Some q"
        show "outs ! k = Inr q"
        proof (cases "k = j")
          case True
          with k Cons.prems(2) Inr show ?thesis by simp
        next
          case False
          with k have "slots ! k = Some q" by simp
          with Cons.prems(3) k show ?thesis by blast
        qed
      qed
      from Cons.IH [OF a b c] show ?thesis .
    qed
  qed
qed

lemma gather_collect_returns:
  assumes "\<forall>j<length outs. \<exists>r. outs ! j = Inr r"
    and "length slots = length outs"
    and "\<forall>j<length outs. slots ! j = None \<longrightarrow> j \<in> set sched"
  shows "\<exists>rs. snd (gather_collect base sched outs slots) = Some (Inr rs)"
  using assms
proof (induction sched arbitrary: slots)
  case Nil
  then have "\<forall>j<length slots. slots ! j \<noteq> None" by auto
  then have "slots = map Some (map the slots)"
    by (auto simp: list_eq_iff_nth_eq)
  then have "those slots = Some (map the slots)"
    by (simp only: those_eq_Some)
  then show ?case by simp
next
  case (Cons j sched)
  show ?case
  proof (cases "j < length outs")
    case False
    have "\<forall>k<length outs. slots ! k = None \<longrightarrow> k \<in> set sched"
      using Cons.prems False by auto
    with Cons False show ?thesis by simp
  next
    case True
    with Cons.prems obtain r where r: "outs ! j = Inr r" by blast
    have b: "length (slots[j := Some r]) = length outs"
      using Cons.prems by simp
    have c: "\<forall>k<length outs. slots[j := Some r] ! k = None \<longrightarrow> k \<in> set sched"
    proof (intro allI impI)
      fix k assume k: "k < length outs" "slots[j := Some r] ! k = None"
      have "k \<noteq> j"
      proof
        assume "k = j"
        with k Cons.prems(2) show False by simp
      qed
      with k have "slots ! k = None" by simp
      with Cons.prems(3) k \<open>k \<noteq> j\<close> show "k \<in> set sched" by auto
    qed
    from Cons.IH [OF Cons.prems(1) b c] True r show ?thesis by simp
  qed
qed

lemma gather_collect_events:
  "set (fst (gather_collect base sched outs slots)) \<subseteq> Finish ` {base ..< base + length outs}"
  by (induction sched arbitrary: slots) (auto split: sum.splits)

lemma gather_collect_finished:
  assumes "snd (gather_collect base sched outs slots) = Some (Inr rs)"
    and "length slots = length outs"
    and "j < length outs" and "slots ! j = None"
  shows "Finish (base + j) \<in> set (fst (gather_collect base sched outs slots))"
  using assms
proof (induction sched arbitrary: slots)
  case Nil
  then have "slots = map Some rs" by (auto simp: those_eq_Some)
  with Nil show ?case by auto
next
  case (Cons k sched)
  show ?case
  proof (cases "k < length outs")
    case False
    with Cons show ?thesis by simp
  next
    case True
    show ?thesis
    proof (cases "outs ! k")
      case (Inl e)
      with True Cons.prems show ?thesis by simp
    next
      case (Inr r)
      show ?thesis
      proof (cases "k = j")
        case True
        with Inr \<open>k < length outs\<close> show ?thesis by simp
      next
        case False
        have a: "snd (gather_collect base sched outs (slots[k := Some r])) = Some (Inr rs)"
          using Cons.prems Inr True by simp
        have b: "length (slots[k := Some r]) = length outs"
          using Cons.prems by simp
        have c: "slots[k := Some r] ! j = None"
          using Cons.prems False by simp
        from Cons.IH [OF a b Cons.prems(3) c] Inr True show ?thesis by simp
      qed
    qed
  qed
qed

lemma gather_Inr:
  assumes "snd (gather base sched outs) = Some (Inr rs)"
  shows "length rs = length outs \<and> (\<forall>j<length outs. outs ! j = Inr (rs ! j))"
  using assms gather_collect_Inr [of base sched outs "replicate (length outs) None" rs]
  by (simp add: gather_def)

lemma gather_returns:
  assumes "\<forall>j<length outs. \<exists>r. outs ! j = Inr r"
    and "\<forall>j<length outs. j \<in> set sched"
  shows "\<exists>rs. snd (gather base sched outs) = Some (Inr rs)"
  using gather_collect_returns [of outs "replicate (length outs) None" sched base] assms
  by (simp add: gather_def)

lemma gather_events:
  "\<exists>fs. fst (gather base sched outs) = map Start [base ..< base + length outs] @ fs
        \<and> set fs \<subseteq> Finish ` {base ..< base + length outs}
        \<and> (\<forall>rs. snd (gather base sched outs) = Some (Inr rs)
              \<longrightarrow> Finish ` {base ..< base + length outs} \<subseteq> set fs)"
proof -
  let ?c = "gather_collect base sched outs (replicate (length outs) None)"
  have "fst (gather base sched outs) = map Start [base ..< base + length outs] @ fst ?c"
    by (simp add: gather_def)
  moreover have "set (fst ?c) \<subseteq> Finish ` {base ..< base + length outs}"
    by (rule gather_collect_events)
  moreover have "Finish ` {base ..< base + length outs} \<subseteq> set (fst ?c)"
    if "snd (gather base sched outs) = Some (Inr rs)" for rs
  proof
    fix e assume "e \<in> Finish ` {base ..< base + length outs}"
    then obtain j where j: "j < length outs" "e = Finish (base + j)"
      by (auto simp: image_iff) (metis le_Suc_ex)
    from that have "snd ?c = Some (Inr rs)" by (simp add: gather_def)
    from gather_collect_finished [OF this _ j(1)] j show "e \<in> set (fst ?c)" by simp
  qed
  ultimately show ?thesis by blast
qed

lemma length_tasks: "length (tasks gen i batch) = length batch"
  by (simp add: tasks_def)

lemma nth_tasks: "j < length batch \<Longrightarrow> tasks gen i batch ! j = gen (i + j) (batch ! j)"
  by (simp add: tasks_def nth_enumerate_eq)

section \<open>Facts about the wave loop\<close>

lemma batch_nth:
  assumes "j < length (take 50 (drop i prompts))"
  shows "take 50 (drop i prompts) ! j = prompts ! (i + j)"
    and "i + j < length prompts" and "j < 50"
proof -
  from assms have a: "j < 50" "j < length prompts - i" by simp_all
  then have b: "i \<le> length prompts" "i + j < length prompts" by simp_all
  from a b show "take 50 (drop i prompts) ! j = prompts ! (i + j)"
    and "i + j < length prompts" and "j < 50"
    by simp_all
qed

lemma batch_waves_Inr:
  assumes "snd (batch_waves gen scheds prompts i results) = Some (Inr rs)"
    and "length results = min i (length prompts)"
    and "\<forall>k<length results. gen k (prompts ! k) = Inr (results ! k)"
  shows "length rs = length prompts \<and> (\<forall>k<length prompts. gen k (prompts ! k) = Inr (rs ! k))"
  using assms
proof (induction gen scheds prompts i results rule: batch_waves.induct)
  case (1 gen scheds prompts i results)
  show ?case
  proof (cases "i < length prompts")
    case False
    with "1.prems" show ?thesis
      by (simp add: batch_waves.simps [of gen scheds prompts i results])
  next
    case True
    let ?batch = "take 50 (drop i prompts)"
    obtain ev res where g: "gather i (scheds (i div 50)) (tasks gen i ?batch) = (ev, res)"
      by (cases "gather i (scheds (i div 50)) (tasks gen i ?batch)")
    from "1.prems"(1) True g obtain brs where res: "res = Some (Inr brs)"
      and rec: "snd (batch_waves gen scheds prompts (i + 50) (results @ brs)) = Some (Inr rs)"
      by (cases res; cases "the res")
         (auto simp: batch_waves.simps [of gen scheds prompts i results])
    from g res have "snd (gather i (scheds (i div 50)) (tasks gen i ?batch)) = Some (Inr brs)"
      by simp
    from gather_Inr [OF this]
    have len: "length brs = length ?batch"
      and nth: "\<forall>j<length ?batch. gen (i + j) (?batch ! j) = Inr (brs ! j)"
      by (simp_all add: length_tasks nth_tasks)
    have a: "length (results @ brs) = min (i + 50) (length prompts)"
      using len "1.prems"(2) True by simp
    have b: "\<forall>k<length (results @ brs). gen k (prompts ! k) = Inr ((results @ brs) ! k)"
    proof (intro allI impI)
      fix k assume k: "k < length (results @ brs)"
      show "gen k (prompts ! k) = Inr ((results @ brs) ! k)"
      proof (cases "k < length results")
        case True
        with "1.prems"(3) show ?thesis by (simp add: nth_append)
      next
        case False
        with "1.prems"(2) \<open>i < length prompts\<close> have ik: "i \<le> k" "length results = i" by simp_all
        with k len have kb: "k - i < length ?batch" by auto
        with nth have "gen (i + (k - i)) (?batch ! (k - i)) = Inr (brs ! (k - i))" by blast
        moreover have "?batch ! (k - i) = prompts ! k"
          using batch_nth(1) [OF kb] ik by simp
        ultimately show ?thesis using ik False by (simp add: nth_append)
      qed
    qed
    from "1.IH" [OF True refl g [symmetric] res refl rec a b] show ?thesis .
  qed
qed

lemma batch_waves_returns:
  assumes "\<forall>k<length prompts. \<exists>r. gen k (prompts ! k) = Inr r"
    and "\<forall>k j. 50 * k + j < length prompts \<and> j < 50 \<longrightarrow> j \<in> set (scheds k)"
    and "50 dvd i"
  shows "\<exists>rs. snd (batch_waves gen scheds prompts i results) = Some (Inr rs)"
  using assms
proof (induction gen scheds prompts i results rule: batch_waves.induct)
  case (1 gen scheds prompts i results)
  show ?case
  proof (cases "i < length prompts")
    case False
    then show ?thesis
      by (simp add: batch_waves.simps [of gen scheds prompts i results])
  next
    case True
    let ?batch = "take 50 (drop i prompts)"
    let ?outs = "tasks gen i ?batch"
    have ok: "\<forall>j<length ?outs. \<exists>r. ?outs ! j = Inr r"
    proof (intro allI impI)
      fix j assume "j < length ?outs"
      then have j: "j < length ?batch" by (simp add: length_tasks)
      from batch_nth(2) [OF j] "1.prems"(1)
      obtain r where "gen (i + j) (prompts ! (i + j)) = Inr r" by blast
      with j batch_nth(1) [OF j] show "\<exists>r. ?outs ! j = Inr r" by (simp add: nth_tasks)
    qed
    have sch: "\<forall>j<length ?outs. j \<in> set (scheds (i div 50))"
    proof (intro allI impI)
      fix j assume "j < length ?outs"
      then have j: "j < length ?batch" by (simp add: length_tasks)
      then have "i + j < length prompts" "j < 50" by (rule batch_nth)+
      moreover from "1.prems"(3) have "50 * (i div 50) = i" by simp
      ultimately show "j \<in> set (scheds (i div 50))"
        using "1.prems"(2) by metis
    qed
    from gather_returns [OF ok sch, of i] obtain brs where
      s: "snd (gather i (scheds (i div 50)) ?outs) = Some (Inr brs)" by blast
    then obtain ev where g: "gather i (scheds (i div 50)) ?outs = (ev, Some (Inr brs))"
      by (cases "gather i (scheds (i div 50)) ?outs") simp
    have d: "50 dvd i + 50" using "1.prems"(3) by simp
    from "1.IH" [OF True refl g [symmetric] refl refl "1.prems"(1,2) d]
    obtain rs where "snd (batch_waves gen scheds prompts (i + 50) (results @ brs)) = Some (Inr rs)"
      by blast
    with True g show ?thesis
      by (simp add: batch_waves.simps [of gen scheds prompts i results])
  qed
qed

lemma subscript_all_Inr:
  "subscript_all m uids = Inr rs \<Longrightarrow>
   length rs = length uids \<and> (\<forall>k<length uids. map_of m (uids ! k) = Some (rs ! k))"
proof (induction uids arbitrary: rs)
  case Nil
  then show ?case by simp
next
  case (Cons u uids)
  from Cons.prems obtain r rs' where r: "map_of m u = Some r"
    and rs': "subscript_all m uids = Inr rs'" and rs: "rs = r # rs'"
    by (auto split: option.splits sum.splits)
  from Cons.IH [OF rs'] r rs show ?case
    by (auto simp: nth_Cons split: nat.splits)
qed

lemma subscript_all_returns:
  "\<forall>u \<in> set uids. map_of m u \<noteq> None \<Longrightarrow> \<exists>rs. subscript_all m uids = Inr rs"
  by (induction uids) auto

lemma map_of_foldl_update:
  "map_of (foldl (\<lambda>d (k, v). AList.update k v d) d kvs) = map_of d ++ map_of (rev kvs)"
proof (induction kvs arbitrary: d)
  case Nil
  then show ?case by simp
next
  case (Cons kv kvs)
  obtain k v where kv: "kv = (k, v)" by (cases kv)
  have "map_of (AList.update k v d) ++ map_of (rev kvs)
          = map_of d ++ (map_of [(k, v)] ++ map_of (rev kvs))"
    by (simp add: update_conv' map_add_upd_left fun_eq_iff map_add_def split: option.splits)
  with Cons kv show ?case by simp
qed

lemma map_of_dict_of: "map_of (dict_of kvs) = map_of (rev kvs)"
  by (simp add: dict_of_def map_of_foldl_update)

lemma map_of_dict_of_distinct:
  assumes "distinct (map fst kvs)" and "k < length kvs"
  shows "map_of (dict_of kvs) (fst (kvs ! k)) = Some (snd (kvs ! k))"
proof -
  have "map_of (rev kvs) = map_of kvs"
    using assms(1) by (subst map_of_inject_set) (simp_all add: rev_map [symmetric])
  moreover have "map_of kvs (fst (kvs ! k)) = Some (snd (kvs ! k))"
    using assms by (simp add: map_of_eq_Some_iff)
  ultimately show ?thesis by (simp add: map_of_dict_of)
qed

section \<open>Order of a batch\<close>

lemma bedrock_tasks_nth:
  assumes "j < length prompts"
  shows "map (\<lambda>(i, prompt). generate_async_with_uid gen i prompt (uuid4 i)) (enumerate 0 prompts) ! j
         = generate_async_with_uid gen j (prompts ! j) (uuid4 j)"
  using assms by (simp add: nth_enumerate_eq)

lemma bedrock_gather_results:
  assumes "snd (gather 0 sched
             (map (\<lambda>(i, prompt). generate_async_with_uid gen i prompt (uuid4 i)) (enumerate 0 prompts)))
           = Some (Inr results)"
  shows "length results = length prompts
         \<and> (\<forall>j<length prompts. gen j (prompts ! j) = Inr (snd (results ! j))
                                 \<and> fst (results ! j) = uuid4 j)"
proof -
  let ?outs = "map (\<lambda>(i, prompt). generate_async_with_uid gen i prompt (uuid4 i)) (enumerate 0 prompts)"
  from gather_Inr [OF assms]
  have len: "length results = length ?outs"
    and nth: "\<forall>j<length ?outs. ?outs ! j = Inr (results ! j)" by simp_all
  have "gen j (prompts ! j) = Inr (snd (results ! j)) \<and> fst (results ! j) = uuid4 j"
    if j: "j < length prompts" for j
  proof -
    from nth j have "?outs ! j = Inr (results ! j)" by simp
    with bedrock_tasks_nth [OF j, of gen uuid4]
    have "generate_async_with_uid gen j (prompts ! j) (uuid4 j) = Inr (results ! j)" by simp
    then show ?thesis
      by (cases "gen j (prompts ! j)")
         (auto simp: generate_async_with_uid_def, (metis snd_conv), (metis fst_conv))
  qed
  with len show ?thesis by simp
qed

lemma bedrock_lookup:
  assumes "inj_on uuid4 {..<length prompts}"
    and "length results = length prompts"
    and "\<forall>j<length prompts. fst (results ! j) = uuid4 j"
    and "k < length prompts"
  shows "map_of (dict_of results) (uuid4 k) = Some (snd (results ! k))"
proof -
  have "map fst results = map uuid4 [0 ..< length prompts]"
    by (rule nth_equalityI) (use assms(2,3) in simp_all)
  moreover have "distinct (map uuid4 [0 ..< length prompts])"
    using assms(1) by (simp add: distinct_map lessThan_atLeast0)
  ultimately have "distinct (map fst results)" by simp
  from map_of_dict_of_distinct [OF this, of k] assms(2,3,4) show ?thesis by simp
qed

lemma bedrock_Inr:
  assumes "inj_on uuid4 {..<length prompts}"
    and "snd (bedrock_generate_batch_async gen uuid4 sched prompts) = Some (Inr rs)"
  shows "length rs = length prompts \<and> (\<forall>i<length prompts. gen i (prompts ! i) = Inr (rs ! i))"
proof -
  let ?outs = "map (\<lambda>(i, prompt). generate_async_with_uid gen i prompt (uuid4 i)) (enumerate 0 prompts)"
  obtain ev res where g: "gather 0 sched ?outs = (ev, res)"
    by (cases "gather 0 sched ?outs")
  from assms(2) g obtain results where res: "res = Some (Inr results)"
    and sub: "subscript_all (dict_of results) (map uuid4 [0 ..< length prompts]) = Inr rs"
    by (cases res; cases "the res") (auto simp: bedrock_generate_batch_async_def)
  from g res have "snd (gather 0 sched ?outs) = Some (Inr results)" by simp
  from bedrock_gather_results [OF this]
  have len: "length results = length prompts"
    and ans: "\<forall>j<length prompts. gen j (prompts ! j) = Inr (snd (results ! j))"
    and uid: "\<forall>j<length prompts. fst (results ! j) = uuid4 j" by simp_all
  from subscript_all_Inr [OF sub]
  have rl: "length rs = length prompts"
    and rn: "\<forall>k<length prompts. map_of (dict_of results) (uuid4 k) = Some (rs ! k)" by simp_all
  have "gen i (prompts ! i) = Inr (rs ! i)" if i: "i < length prompts" for i
  proof -
    from bedrock_lookup [OF assms(1) len uid i] rn i have "rs ! i = snd (results ! i)" by simp
    with ans i show ?thesis by simp
  qed
  with rl show ?thesis by simp
qed

lemma bedrock_returns:
  assumes "inj_on uuid4 {..<length prompts}"
    and "\<forall>i<length prompts. \<exists>r. gen i (prompts ! i) = Inr r"
    and "\<forall>j<length prompts. j \<in> set sched"
  shows "\<exists>rs. snd (bedrock_generate_batch_async gen uuid4 sched prompts) = Some (Inr rs)"
proof -
  let ?outs = "map (\<lambda>(i, prompt). generate_async_with_uid gen i prompt (uuid4 i)) (enumerate 0 prompts)"
  have ok: "\<forall>j<length ?outs. \<exists>r. ?outs ! j = Inr r"
  proof (intro allI impI)
    fix j assume "j < length ?outs"
    then have j: "j < length prompts" by simp
    with assms(2) obtain r where "gen j (prompts ! j) = Inr r" by blast
    with bedrock_tasks_nth [OF j, of gen uuid4] show "\<exists>r. ?outs ! j = Inr r"
      by (simp add: generate_async_with_uid_def)
  qed
  have sch: "\<forall>j<length ?outs. j \<in> set sched" using assms(3) by simp
  from gather_returns [OF ok sch, of 0] obtain results where
    s: "snd (gather 0 sched ?outs) = Some (Inr results)" by blast
  then obtain ev where g: "gather 0 sched ?outs = (ev, Some (Inr results))"
    by (cases "gather 0 sched ?outs") simp
  from bedrock_gather_results [OF s]
  have len: "length results = length prompts"
    and uid: "\<forall>j<length prompts. fst (results ! j) = uuid4 j" by simp_all
  have "\<forall>u \<in> set (map uuid4 [0 ..< length prompts]). map_of (dict_of results) u \<noteq> None"
    using bedrock_lookup [OF assms(1) len uid] by auto
  from subscript_all_returns [OF this] obtain rs where
    "subscript_all (dict_of results) (map uuid4 [0 ..< length prompts]) = Inr rs" by blast
  with g show ?thesis by (simp add: bedrock_generate_batch_async_def)
qed

lemma default_Inr:
  assumes "snd (generate_batch_async gen scheds prompts) = Some (Inr rs)"
  shows "length rs = length prompts \<and> (\<forall>i<length prompts. gen i (prompts ! i) = Inr (rs ! i))"
proof (cases "length prompts \<le> 50")
  case True
  with assms have "snd (gather 0 (scheds 0) (tasks gen 0 prompts)) = Some (Inr rs)"
    by (simp add: generate_batch_async_def)
  from gather_Inr [OF this] show ?thesis by (simp add: length_tasks nth_tasks)
next
  case False
  with assms have "snd (batch_waves gen scheds prompts 0 []) = Some (Inr rs)"
    by (simp add: generate_batch_async_def)
  from batch_waves_Inr [OF this] show ?thesis by simp
qed

lemma default_returns:
  assumes "\<forall>i<length prompts. \<exists>r. gen i (prompts ! i) = Inr r"
    and "\<forall>k j. 50 * k + j < length prompts \<and> j < 50 \<longrightarrow> j \<in> set (scheds k)"
  shows "\<exists>rs. snd (generate_batch_async gen scheds prompts) = Some (Inr rs)"
proof (cases "length prompts \<le> 50")
  case True
  have ok: "\<forall>j<length (tasks gen 0 prompts). \<exists>r. tasks gen 0 prompts ! j = Inr r"
    using assms(1) by (simp add: length_tasks nth_tasks)
  have sch: "\<forall>j<length (tasks gen 0 prompts). j \<in> set (scheds 0)"
  proof (intro allI impI)
    fix j assume "j < length (tasks gen 0 prompts)"
    with True have "50 * 0 + j < length prompts \<and> j < 50" by (simp add: length_tasks)
    with assms(2) show "j \<in> set (scheds 0)" by blast
  qed
  from gather_returns [OF ok sch, of 0] True show ?thesis
    by (simp add: generate_batch_async_def)
next
  case False
  have "\<exists>rs. snd (batch_waves gen scheds prompts 0 []) = Some (Inr rs)"
    by (rule batch_waves_returns) (use assms in auto)
  with False show ?thesis
    by (simp add: generate_batch_async_def)
qed

text \<open>
  Claim C1. For every list of prompts, \<open>generate_batch_async\<close> returns a list of the
  same length whose \<open>i\<close>-th response is the outcome of the call made for the \<open>i\<close>-th
  prompt, whatever the order in which the calls complete; this holds for the default
  implementation and for the Bedrock override, whose uids (\<open>uuid4\<close> values) are
  pairwise different. Whenever the method returns a list, that list is the ordered one;
  and it does return one when every call succeeds and every launched call completes.
\<close>

theorem generate_batch_async_order:
  "(snd (generate_batch_async gen scheds prompts) = Some (Inr rs) \<longrightarrow>
      length rs = length prompts \<and> (\<forall>i<length prompts. gen i (prompts ! i) = Inr (rs ! i)))
   \<and> ((\<forall>i<length prompts. \<exists>r. gen i (prompts ! i) = Inr r)
        \<and> (\<forall>k j. 50 * k + j < length prompts \<and> j < 50 \<longrightarrow> j \<in> set (scheds k))
       \<longrightarrow> (\<exists>rs'. snd (generate_batch_async gen scheds prompts) = Some (Inr rs')))
   \<and> (inj_on uuid4 {..<length prompts} \<longrightarrow>
        (snd (bedrock_generate_batch_async gen uuid4 sched prompts) = Some (Inr brs) \<longrightarrow>
           length brs = length prompts \<and> (\<forall>i<length prompts. gen i (prompts ! i) = Inr (brs ! i)))
        \<and> ((\<forall>i<length prompts. \<exists>r. gen i (prompts ! i) = Inr r)
             \<and> (\<forall>j<length prompts. j \<in> set sched)
            \<longrightarrow> (\<exists>rs'. snd (bedrock_generate_batch_async gen uuid4 sched prompts) = Some (Inr rs'))))"
  using default_Inr [of gen scheds prompts rs] default_returns [of prompts gen scheds]
    bedrock_Inr [of uuid4 prompts gen sched brs] bedrock_returns [of uuid4 prompts gen sched]
  by blast

theorem generate_batch_async_order_witness:
  "snd (generate_batch_async (\<lambda>i prompt. Inr (''answer to '' @ prompt)) (\<lambda>k. [2, 0, 1])
          [''first'', ''second'', ''third''])
     = Some (Inr [''answer to first'', ''answer to second'', ''answer to third''])
   \<and> snd (bedrock_generate_batch_async (\<lambda>i prompt. Inr (''answer to '' @ prompt))
          (\<lambda>i. replicate (Suc i) CHR ''u'') [2, 0, 1] [''first'', ''second'', ''third''])
     = Some (Inr [''answer to first'', ''answer to second'', ''answer to third''])"
proof -
  let ?gen = "\<lambda>(i::nat) prompt. (Inr (''answer to '' @ prompt) :: exn + string)"
  let ?uuid4 = "\<lambda>i. replicate (Suc i) CHR ''u''"
  let ?ps = "[''first'', ''second'', ''third'']"
  have lt3: "j = 0 \<or> j = 1 \<or> j = 2" if "j < 3" for j :: nat
    using that by auto
  have ok: "\<forall>i<length ?ps. \<exists>r. ?gen i (?ps ! i) = Inr r" by simp
  have sch: "\<forall>k j. 50 * k + j < length ?ps \<and> j < 50 \<longrightarrow> j \<in> set ((\<lambda>k. [2, 0, 1]) k)"
    using lt3 by auto
  have bsch: "\<forall>j<length ?ps. j \<in> set [2, 0, 1]"
    using lt3 by auto
  have inj: "inj_on ?uuid4 {..<length ?ps}"
    by (auto simp: inj_on_def)
  note t = generate_batch_async_order [of ?gen "\<lambda>k. [2, 0, 1]" ?ps _ ?uuid4 "[2, 0, 1]"]
  from t ok sch obtain rs where
    rs: "snd (generate_batch_async ?gen (\<lambda>k. [2, 0, 1]) ?ps) = Some (Inr rs)" by blast
  from t rs have L: "length rs = length ?ps"
    and N: "\<And>i. i < length ?ps \<Longrightarrow> ?gen i (?ps ! i) = Inr (rs ! i)"
    by blast+
  from L N [of 0] N [of 1] N [of 2]
  have "length rs = 3" "rs ! 0 = ''answer to first''" "rs ! 1 = ''answer to second''"
    "rs ! 2 = ''answer to third''"
    by simp_all
  then have r: "rs = [''answer to first'', ''answer to second'', ''answer to third'']"
    by (auto simp: list_eq_iff_nth_eq dest: lt3)
  from t ok bsch inj obtain brs where
    brs: "snd (bedrock_generate_batch_async ?gen ?uuid4 [2, 0, 1] ?ps) = Some (Inr brs)" by blast
  from generate_batch_async_order [of ?gen "\<lambda>k. [2, 0, 1]" ?ps _ ?uuid4 "[2, 0, 1]" brs] inj brs
  have BL: "length brs = length ?ps"
    and BN: "\<And>i. i < length ?ps \<Longrightarrow> ?gen i (?ps ! i) = Inr (brs ! i)"
    by blast+
  from BL BN [of 0] BN [of 1] BN [of 2]
  have "length brs = 3" "brs ! 0 = ''answer to first''" "brs ! 1 = ''answer to second''"
    "brs ! 2 = ''answer to third''"
    by simp_all
  then have b: "brs = [''answer to first'', ''answer to second'', ''answer to third'']"
    by (auto simp: list_eq_iff_nth_eq dest: lt3)
  from rs r brs b show ?thesis by simp
qed

section \<open>Calls in flight\<close>

lemma set_started: "set (started es) = {i. Start i \<in> set es}"
  by (induction es rule: started.induct) auto

lemma set_in_flight: "set (in_flight es) = {i. Start i \<in> set es \<and> Finish i \<notin> set es}"
  by (auto simp: in_flight_def set_started)

lemma distinct_in_flight: "distinct (in_flight es)"
  by (simp add: in_flight_def)

lemma in_flight_bound:
  assumes "set (in_flight es) \<subseteq> {50 * k ..< 50 * k + 50}"
  shows "length (in_flight es) \<le> 50"
proof -
  have "length (in_flight es) = card (set (in_flight es))"
    by (simp add: distinct_card distinct_in_flight)
  also have "\<dots> \<le> card {50 * k ..< 50 * k + 50}"
    by (rule card_mono) (use assms in simp_all)
  finally show ?thesis by simp
qed

text \<open>
  The phase of a run after the events \<open>p\<close>: wave \<open>k\<close> is the current one when nothing
  beyond wave \<open>k\<close> has been launched and every call of an earlier wave, from position
  \<open>i\<close> on, has completed.
\<close>

lemma phase_in_flight:
  assumes "\<forall>x. Start x \<in> set p \<longrightarrow> x < 50 * k + 50"
    and "\<forall>x. x < 50 * k \<longrightarrow> Finish x \<in> set p"
  shows "set (in_flight p) \<subseteq> {50 * k ..< 50 * k + 50}"
  using assms by (auto simp: set_in_flight) (metis not_le_imp_less)

lemma gather_prefix_starts:
  assumes "prefix p (fst (gather base sched outs))" and "Start x \<in> set p"
  shows "base \<le> x \<and> x < base + length outs"
proof -
  from gather_events [of base sched outs] obtain fs where
    f: "fst (gather base sched outs) = map Start [base ..< base + length outs] @ fs"
    and s: "set fs \<subseteq> Finish ` {base ..< base + length outs}" by blast
  from assms have "Start x \<in> set (fst (gather base sched outs))"
    using set_mono_prefix by blast
  with f s show ?thesis by auto
qed

lemma gather_all_finished:
  assumes "gather base sched outs = (ev, Some (Inr rs))" and "base \<le> x" and "x < base + length outs"
  shows "Finish x \<in> set ev"
proof -
  from gather_events [of base sched outs] assms(1) obtain fs where
    f: "ev = map Start [base ..< base + length outs] @ fs"
    and s: "Finish ` {base ..< base + length outs} \<subseteq> set fs" by auto
  from assms(2,3) have "Finish x \<in> Finish ` {base ..< base + length outs}" by simp
  with f s show ?thesis by auto
qed

lemma batch_waves_phase:
  assumes "50 dvd i" and "prefix p (fst (batch_waves gen scheds prompts i results))"
  shows "\<exists>k. i \<le> 50 * k
             \<and> (\<forall>x. Start x \<in> set p \<longrightarrow> x < 50 * k + 50)
             \<and> (\<forall>x. i \<le> x \<and> x < 50 * k \<longrightarrow> Finish x \<in> set p)"
  using assms
proof (induction gen scheds prompts i results arbitrary: p rule: batch_waves.induct)
  case (1 gen scheds prompts i results)
  show ?case
  proof (cases "i < length prompts")
    case False
    with "1.prems" have "p = []"
      by (simp add: batch_waves.simps [of gen scheds prompts i results])
    then have "i \<le> 50 * (i div 50)
             \<and> (\<forall>x. Start x \<in> set p \<longrightarrow> x < 50 * (i div 50) + 50)
             \<and> (\<forall>x. i \<le> x \<and> x < 50 * (i div 50) \<longrightarrow> Finish x \<in> set p)"
      using "1.prems"(1) by auto
    then show ?thesis by blast
  next
    case True
    let ?batch = "take 50 (drop i prompts)"
    let ?outs = "tasks gen i ?batch"
    have i50: "50 * (i div 50) = i" using "1.prems"(1) by simp
    obtain ev res where g: "gather i (scheds (i div 50)) ?outs = (ev, res)"
      by (cases "gather i (scheds (i div 50)) ?outs")
    have first: "i \<le> 50 * (i div 50)
             \<and> (\<forall>x. Start x \<in> set q \<longrightarrow> x < 50 * (i div 50) + 50)
             \<and> (\<forall>x. i \<le> x \<and> x < 50 * (i div 50) \<longrightarrow> Finish x \<in> set q)"
      if q: "prefix q ev" for q
    proof -
      have "x < i + 50" if "Start x \<in> set q" for x
      proof -
        from q g have "prefix q (fst (gather i (scheds (i div 50)) ?outs))" by simp
        from gather_prefix_starts [OF this that] have "x < i + length ?batch"
          by (simp add: length_tasks)
        then show ?thesis by simp
      qed
      with i50 show ?thesis by auto
    qed
    show ?thesis
    proof (cases "prefix p ev")
      case True
      from first [OF this] show ?thesis by blast
    next
      case False
      have T: "fst (batch_waves gen scheds prompts i results)
                 = (case res of Some (Inr brs) \<Rightarrow>
                      ev @ fst (batch_waves gen scheds prompts (i + 50) (results @ brs))
                    | _ \<Rightarrow> ev)"
        using True g
        by (simp add: batch_waves.simps [of gen scheds prompts i results]
            split: option.splits sum.splits)
      with "1.prems"(2) False obtain brs where res: "res = Some (Inr brs)"
        by (cases res; cases "the res") auto
      with T "1.prems"(2) False obtain p' where p': "p = ev @ p'"
        and pre: "prefix p' (fst (batch_waves gen scheds prompts (i + 50) (results @ brs)))"
        by (auto simp: prefix_append)
      from False p' have ne: "p' \<noteq> []" by auto
      have more: "i + 50 < length prompts"
      proof (rule ccontr)
        assume "\<not> i + 50 < length prompts"
        then have "fst (batch_waves gen scheds prompts (i + 50) (results @ brs)) = []"
          by (simp add: batch_waves.simps [of gen scheds prompts "i + 50"])
        with pre ne show False by simp
      qed
      then have full: "length ?outs = 50" by (simp add: length_tasks)
      have d: "50 dvd i + 50" using "1.prems"(1) by simp
      from "1.IH" [OF True refl g [symmetric] res refl d pre] obtain k where
        kpos: "i + 50 \<le> 50 * k" and
        k1: "\<forall>x. Start x \<in> set p' \<longrightarrow> x < 50 * k + 50"
        and k2: "\<forall>x. i + 50 \<le> x \<and> x < 50 * k \<longrightarrow> Finish x \<in> set p'" by blast
      have a: "\<forall>x. Start x \<in> set p \<longrightarrow> x < 50 * k + 50"
      proof (intro allI impI)
        fix x assume "Start x \<in> set p"
        with p' consider "Start x \<in> set ev" | "Start x \<in> set p'" by auto
        then show "x < 50 * k + 50"
        proof cases
          case 1
          with first [of ev] i50 have "x < i + 50" by auto
          with kpos show ?thesis by simp
        next
          case 2
          with k1 show ?thesis by blast
        qed
      qed
      have b: "\<forall>x. i \<le> x \<and> x < 50 * k \<longrightarrow> Finish x \<in> set p"
      proof (intro allI impI)
        fix x assume x: "i \<le> x \<and> x < 50 * k"
        show "Finish x \<in> set p"
        proof (cases "x < i + 50")
          case True
          with x full gather_all_finished [OF g [unfolded res], of x] p' show ?thesis by simp
        next
          case False
          with x k2 p' show ?thesis by simp
        qed
      qed
      from kpos have "i \<le> 50 * k" by simp
      with a b show ?thesis by blast
    qed
  qed
qed

lemma default_phase:
  assumes "prefix p (fst (generate_batch_async gen scheds prompts))"
  shows "\<exists>k. (\<forall>x. Start x \<in> set p \<longrightarrow> x < 50 * k + 50) \<and> (\<forall>x. x < 50 * k \<longrightarrow> Finish x \<in> set p)"
proof (cases "length prompts \<le> 50")
  case True
  with assms have pre: "prefix p (fst (gather 0 (scheds 0) (tasks gen 0 prompts)))"
    by (simp add: generate_batch_async_def)
  have "x < 50" if "Start x \<in> set p" for x
    using gather_prefix_starts [OF pre that] True by (simp add: length_tasks)
  then have "(\<forall>x. Start x \<in> set p \<longrightarrow> x < 50 * 0 + 50) \<and> (\<forall>x. x < 50 * 0 \<longrightarrow> Finish x \<in> set p)"
    by simp
  then show ?thesis by blast
next
  case False
  with assms have "prefix p (fst (batch_waves gen scheds prompts 0 []))"
    by (simp add: generate_batch_async_def)
  from batch_waves_phase [OF _ this] show ?thesis by auto
qed

lemma started_map_Start: "started (map Start xs) = xs"
  by (induction xs) auto

lemma in_flight_all_started: "distinct xs \<Longrightarrow> in_flight (map Start xs) = xs"
  by (auto simp: in_flight_def started_map_Start distinct_remdups_id filter_id_conv)

lemma bedrock_trace:
  "fst (bedrock_generate_batch_async gen uuid4 sched prompts)
     = fst (gather 0 sched
         (map (\<lambda>(i, prompt). generate_async_with_uid gen i prompt (uuid4 i)) (enumerate 0 prompts)))"
  by (simp add: bedrock_generate_batch_async_def split: prod.splits option.splits sum.splits)

lemma bedrock_launches_all:
  "take (length prompts) (fst (bedrock_generate_batch_async gen uuid4 sched prompts))
     = map Start [0 ..< length prompts]"
proof -
  let ?outs = "map (\<lambda>(i, prompt). generate_async_with_uid gen i prompt (uuid4 i)) (enumerate 0 prompts)"
  from gather_events [of 0 sched ?outs] obtain fs where
    "fst (gather 0 sched ?outs) = map Start [0 ..< 0 + length ?outs] @ fs" by blast
  then show ?thesis by (simp add: bedrock_trace)
qed

text \<open>
  Claim C2, as amended. The default \<open>generate_batch_async\<close>, which the GPT adapter
  inherits, never has more than 50 calls in flight, and no call of a later wave is
  launched before every call of each earlier wave has completed (the wave of position
  \<open>i\<close> is \<open>i div 50\<close>). The Bedrock override launches all its prompts in one
  \<open>gather\<close>: after its first \<open>length prompts\<close> events that many calls are in flight.
\<close>

theorem default_waves_sequential:
  "(prefix p (fst (generate_batch_async gen scheds prompts)) \<longrightarrow> length (in_flight p) \<le> 50)
   \<and> (fst (generate_batch_async gen scheds prompts) = q @ Start j # q' \<and> i div 50 < j div 50
        \<longrightarrow> Finish i \<in> set q)
   \<and> prefix (map Start [0 ..< length prompts])
        (fst (bedrock_generate_batch_async gen uuid4 sched prompts))
   \<and> length (in_flight (map Start [0 ..< length prompts])) = length prompts"
proof (intro conjI impI)
  assume "prefix p (fst (generate_batch_async gen scheds prompts))"
  from default_phase [OF this] obtain k where
    "\<forall>x. Start x \<in> set p \<longrightarrow> x < 50 * k + 50" "\<forall>x. x < 50 * k \<longrightarrow> Finish x \<in> set p" by blast
  from in_flight_bound [OF phase_in_flight [OF this]] show "length (in_flight p) \<le> 50" .
next
  assume a: "fst (generate_batch_async gen scheds prompts) = q @ Start j # q' \<and> i div 50 < j div 50"
  then have "prefix (q @ [Start j]) (fst (generate_batch_async gen scheds prompts))"
    by (simp add: prefix_def)
  from default_phase [OF this] obtain k where
    k1: "\<forall>x. Start x \<in> set (q @ [Start j]) \<longrightarrow> x < 50 * k + 50"
    and k2: "\<forall>x. x < 50 * k \<longrightarrow> Finish x \<in> set (q @ [Start j])" by blast
  from k1 have "j < 50 * k + 50" by simp
  then have "j div 50 \<le> k" by simp
  with a have "i < 50 * k" by (simp add: div_less_iff_less_mult)
  with k2 show "Finish i \<in> set q" by auto
next
  from gather_events obtain fs where
    "fst (gather 0 sched
       (map (\<lambda>(i, prompt). generate_async_with_uid gen i prompt (uuid4 i)) (enumerate 0 prompts)))
     = map Start [0 ..< 0 + length (map (\<lambda>(i, prompt). generate_async_with_uid gen i prompt (uuid4 i))
                                       (enumerate 0 prompts))] @ fs"
    by blast
  then show "prefix (map Start [0 ..< length prompts])
        (fst (bedrock_generate_batch_async gen uuid4 sched prompts))"
    by (simp add: bedrock_trace)
next
  show "length (in_flight (map Start [0 ..< length prompts])) = length prompts"
    by (simp add: in_flight_all_started)
qed

theorem default_waves_sequential_witness:
  "length (in_flight (take 101 (fst (generate_batch_async echo (\<lambda>k. rev [0 ..< 50])
      (replicate 52 ''p''))))) \<le> 50
   \<and> Finish 7 \<in> set (take 100 (fst (generate_batch_async echo (\<lambda>k. rev [0 ..< 50])
      (replicate 52 ''p''))))"
proof -
  let ?T = "fst (generate_batch_async echo (\<lambda>k. rev [0 ..< 50]) (replicate 52 ''p''))"
  have pre: "prefix (take 101 ?T) ?T" by (rule take_is_prefix)
  have T: "?T = take 100 ?T @ Start 50 # drop 101 ?T \<and> (7::nat) div 50 < 50 div 50"
    by code_simp
  from default_waves_sequential [of "take 101 ?T" echo "\<lambda>k. rev [0 ..< 50]" "replicate 52 ''p''"
      "take 100 ?T" 50 "drop 101 ?T" 7] pre T
  show ?thesis by blast
qed

text \<open>
  Claim C2 as stated covers every adapter. The Bedrock override, given 51 prompts, has
  51 calls in flight after its first 51 events.
\<close>

theorem bedrock_in_flight_counterexample:
  "length (in_flight (take 51
     (fst (bedrock_generate_batch_async echo unary_uid [0 ..< 51] (replicate 51 ''p''))))) = 51"
  using bedrock_launches_all [of "replicate 51 ''p''" echo unary_uid "[0 ..< 51]"]
  by (simp add: in_flight_all_started)

section \<open>Fallback of the hard-regulation phase\<close>

lemma map_of_extract_fold:
  "map_of (foldl (\<lambda>d field. case map_of pd field of Some v \<Rightarrow> AList.update field v d | None \<Rightarrow> d)
                 d flds) k = map_of d k
   \<or> map_of (foldl (\<lambda>d field. case map_of pd field of Some v \<Rightarrow> AList.update field v d | None \<Rightarrow> d)
                 d flds) k = map_of pd k"
proof (induction flds arbitrary: d)
  case Nil
  then show ?case by simp
next
  case (Cons field flds)
  let ?d' = "case map_of pd field of Some v \<Rightarrow> AList.update field v d | None \<Rightarrow> d"
  have "map_of ?d' k = map_of d k \<or> map_of ?d' k = map_of pd k"
    by (auto simp: update_conv' split: option.splits)
  with Cons [of ?d'] show ?case by auto
qed

lemma map_of_extract:
  assumes "k \<noteq> ''verification''"
  shows "map_of (extract_regulation_data reg pd vd) k = None
         \<or> map_of (extract_regulation_data reg pd vd) k = map_of pd k"
  using assms map_of_extract_fold [of pd "[]" _ k]
  by (auto simp: extract_regulation_data_def Let_def update_conv')

lemma section_shape_extract:
  assumes "k \<noteq> ''verification''" and "section_shape ks (map_of pd k)"
  shows "section_shape ks (map_of (extract_regulation_data reg pd vd) k)"
  using map_of_extract [OF assms(1), of reg pd vd] assms(2) by auto

lemma provider_shape_extract:
  "provider_shape pd \<Longrightarrow> provider_shape (extract_regulation_data reg pd vd)"
  by (simp add: provider_shape_def section_shape_extract)

lemma section_dict:
  assumes "section_shape ks (Some v)"
  obtains d where "v = JDict d" and "\<forall>k \<in> set ks. is_list_entry (map_of d k)"
  using assms by (cases v) (auto simp: list_all_iff)

lemma list_entry_len:
  assumes "is_list_entry (map_of d k)"
  shows "\<exists>n. py_len (case map_of d k of Some v \<Rightarrow> v | None \<Rightarrow> JList []) = Inr n"
proof (cases "map_of d k")
  case None
  then show ?thesis by (simp add: py_len_def)
next
  case (Some v)
  with assms show ?thesis by (cases v) (auto simp: py_len_def)
qed

lemma check_disciplinary_actions_total:
  assumes "provider_shape data"
  shows "\<exists>b. check_disciplinary_actions criteria data = Inr b"
proof (cases "map_of data ''Disclosure''")
  case None
  then show ?thesis by (auto simp: check_disciplinary_actions_def)
next
  case (Some v)
  with assms have "section_shape [''disciplinary_actions''] (Some v)"
    by (simp add: provider_shape_def)
  then obtain d where d: "v = JDict d" "is_list_entry (map_of d ''disciplinary_actions'')"
    by (rule section_dict) simp
  from list_entry_len [OF d(2)] Some d(1) show ?thesis
    by (auto simp: check_disciplinary_actions_def dict_get_def bind_exn_def)
qed

lemma check_malpractice_insurance_total:
  assumes "provider_shape data"
  shows "\<exists>b. check_malpractice_insurance criteria data = Inr b"
proof (cases "map_of data ''PLIs''")
  case None
  then show ?thesis by (auto simp: check_malpractice_insurance_def)
next
  case (Some v)
  with assms have "section_shape [] (Some v)"
    by (simp add: provider_shape_def)
  then obtain d where "v = JDict d"
    by (rule section_dict)
  with Some show ?thesis
    by (auto simp: check_malpractice_insurance_def dict_get_def bind_exn_def)
qed

lemma check_board_certification_total:
  assumes "provider_shape data"
  shows "\<exists>b. check_board_certification criteria data = Inr b"
proof (cases "map_of data ''BoardCertifications''")
  case None
  then show ?thesis by (auto simp: check_board_certification_def)
next
  case (Some v)
  with assms have "section_shape [''board_certifications''] (Some v)"
    by (simp add: provider_shape_def)
  then obtain d where d: "v = JDict d" "is_list_entry (map_of d ''board_certifications'')"
    by (rule section_dict) simp
  from list_entry_len [OF d(2)] Some d(1) show ?thesis
    by (auto simp: check_board_certification_def dict_get_def bind_exn_def)
qed

lemma check_criminal_record_total:
  assumes "provider_shape data"
  shows "\<exists>b. check_criminal_record criteria data = Inr b"
proof (cases "map_of data ''Disclosure''")
  case None
  then show ?thesis by (auto simp: check_criminal_record_def)
next
  case (Some v)
  with assms have "section_shape [''disciplinary_actions''] (Some v)"
    by (simp add: provider_shape_def)
  then obtain d where "v = JDict d"
    by (rule section_dict)
  with Some show ?thesis
    by (auto simp: check_criminal_record_def dict_get_def bind_exn_def)
qed

lemma run_checks_total:
  "\<forall>c \<in> set cs. \<exists>b. c = Inr b \<Longrightarrow> \<exists>b. run_checks cs = Inr b"
  by (induction cs) auto

lemma validate_total:
  assumes "provider_shape data"
  shows "\<exists>b. validate_hard_regulation reg data = Inr b"
proof -
  let ?criteria = "case validation_criteria reg of None \<Rightarrow> [] | Some c \<Rightarrow> c"
  have "\<exists>b. run_checks
                [check_disciplinary_actions ?criteria data,
                 check_malpractice_insurance ?criteria data,
                 check_board_certification ?criteria data,
                 check_criminal_record ?criteria data] = Inr b"
    by (rule run_checks_total)
       (use assms check_disciplinary_actions_total check_malpractice_insurance_total
          check_board_certification_total check_criminal_record_total in auto)
  then show ?thesis
    by (auto simp: validate_hard_regulation_def Let_def simp del: run_checks.simps)
qed

lemma fallback_hard_total:
  assumes "provider_shape pd"
  shows "\<exists>rs. fallback_hard regs pd vd acc = Inr (acc @ rs)
              \<and> list_all2 (\<lambda>reg r. \<exists>b. validate_hard_regulation reg (extract_regulation_data reg pd vd) = Inr b
                                   \<and> r = hard_result reg (extract_regulation_data reg pd vd) b) regs rs"
proof (induction regs arbitrary: acc)
  case Nil
  then show ?case by simp
next
  case (Cons reg regs)
  let ?rel = "extract_regulation_data reg pd vd"
  from validate_total [OF provider_shape_extract [OF assms], of reg reg vd]
  obtain b where b: "validate_hard_regulation reg ?rel = Inr b" by blast
  from Cons [of "acc @ [hard_result reg ?rel b]"] obtain rs where
    rs: "fallback_hard regs pd vd (acc @ [hard_result reg ?rel b]) = Inr ((acc @ [hard_result reg ?rel b]) @ rs)"
    and all: "list_all2 (\<lambda>reg r. \<exists>b. validate_hard_regulation reg (extract_regulation_data reg pd vd) = Inr b
                                   \<and> r = hard_result reg (extract_regulation_data reg pd vd) b) regs rs"
    by blast
  from b rs have "fallback_hard (reg # regs) pd vd acc = Inr (acc @ (hard_result reg ?rel b # rs))"
    by simp
  moreover from b all have "list_all2 (\<lambda>reg r. \<exists>b. validate_hard_regulation reg (extract_regulation_data reg pd vd) = Inr b
                                   \<and> r = hard_result reg (extract_regulation_data reg pd vd) b)
                             (reg # regs) (hard_result reg ?rel b # rs)"
    by simp
  ultimately show ?case by blast
qed

lemma map_of_extract_fold_full:
  "map_of (foldl (\<lambda>d field. case map_of pd field of Some v \<Rightarrow> AList.update field v d | None \<Rightarrow> d)
                 d flds) k
   = (if k \<in> set flds \<and> map_of pd k \<noteq> None then map_of pd k else map_of d k)"
proof (induction flds arbitrary: d)
  case Nil
  then show ?case by simp
next
  case (Cons field flds)
  let ?d' = "case map_of pd field of Some v \<Rightarrow> AList.update field v d | None \<Rightarrow> d"
  have d': "map_of ?d' k = (if k = field \<and> map_of pd k \<noteq> None then map_of pd k else map_of d k)"
    by (auto simp: update_conv' split: option.splits)
  have "map_of (foldl (\<lambda>d field. case map_of pd field of Some v \<Rightarrow> AList.update field v d | None \<Rightarrow> d)
                 ?d' flds) k
        = (if k \<in> set flds \<and> map_of pd k \<noteq> None then map_of pd k else map_of ?d' k)"
    by (rule Cons)
  with d' show ?case by auto
qed

lemma map_of_extract_full:
  "map_of (extract_regulation_data reg pd vd) k
   = (if k = ''verification'' \<and> vd \<noteq> [] then Some (JDict vd)
      else if k \<in> set (case data_fields reg of None \<Rightarrow> [] | Some fs \<Rightarrow> fs) then map_of pd k
      else None)"
  by (auto simp: extract_regulation_data_def Let_def update_conv' map_of_extract_fold_full)

text \<open>
  Claim C3. When the batch LLM call of the hard-regulation phase raises, the
  orchestrator catches the exception and evaluates every configured hard regulation
  with the deterministic rule check; it returns exactly one \<open>HardRegulationResult\<close>
  per configured hard regulation, in order, and raises nothing. The \<open>i\<close>-th result
  carries the id and name of the \<open>i\<close>-th regulation, its \<open>passed\<close> flag is the outcome
  of the rule check on the result's \<open>details\<close>, and the details are the provider
  sections named by the regulation's \<open>data_fields\<close> together with the verification
  details. The provider data has the shape of models/provider.py.
\<close>

theorem batch_failure_falls_back:
  assumes "batch (hard_regulation_prompts prompt_of regs pd vd) = Inl e"
    and "provider_shape pd"
  shows "\<exists>results. check_hard_regulations prompt_of batch regs pd vd = Inr results
           \<and> length results = length regs
           \<and> (\<forall>i<length regs. \<exists>b.
                 validate_hard_regulation (regs ! i) (hr_details (results ! i)) = Inr b
                 \<and> passed (results ! i) = b
                 \<and> hr_regulation_id (results ! i) = reg_id (regs ! i)
                 \<and> hr_regulation_name (results ! i) = reg_name (regs ! i)
                 \<and> failure_reason (results ! i)
                     = (if b then None
                        else Some (''Failed to meet '' @ reg_name (regs ! i) @ '' requirements''))
                 \<and> (\<forall>k. map_of (hr_details (results ! i)) k
                        = (if k = ''verification'' \<and> vd \<noteq> [] then Some (JDict vd)
                           else if k \<in> set (case data_fields (regs ! i) of None \<Rightarrow> [] | Some fs \<Rightarrow> fs)
                                then map_of pd k
                           else None)))"
proof -
  from fallback_hard_total [OF assms(2), of regs vd "[]"] obtain rs where
    rs: "fallback_hard regs pd vd [] = Inr rs"
    and all: "list_all2 (\<lambda>reg r. \<exists>b. validate_hard_regulation reg (extract_regulation_data reg pd vd) = Inr b
                                   \<and> r = hard_result reg (extract_regulation_data reg pd vd) b) regs rs"
    by auto
  from assms(1) rs have c: "check_hard_regulations prompt_of batch regs pd vd = Inr rs"
    by (simp add: check_hard_regulations_def)
  from all have l: "length rs = length regs"
    by (simp add: list_all2_lengthD)
  have "\<exists>b. validate_hard_regulation (regs ! i) (hr_details (rs ! i)) = Inr b
                 \<and> passed (rs ! i) = b
                 \<and> hr_regulation_id (rs ! i) = reg_id (regs ! i)
                 \<and> hr_regulation_name (rs ! i) = reg_name (regs ! i)
                 \<and> failure_reason (rs ! i)
                     = (if b then None
                        else Some (''Failed to meet '' @ reg_name (regs ! i) @ '' requirements''))
                 \<and> (\<forall>k. map_of (hr_details (rs ! i)) k
                        = (if k = ''verification'' \<and> vd \<noteq> [] then Some (JDict vd)
                           else if k \<in> set (case data_fields (regs ! i) of None \<Rightarrow> [] | Some fs \<Rightarrow> fs)
                                then map_of pd k
                           else None))"
    if i: "i < length regs" for i
  proof -
    from all i obtain b where
      v: "validate_hard_regulation (regs ! i) (extract_regulation_data (regs ! i) pd vd) = Inr b"
      and r: "rs ! i = hard_result (regs ! i) (extract_regulation_data (regs ! i) pd vd) b"
      by (auto simp: list_all2_conv_all_nth)
    from r have d: "hr_details (rs ! i) = extract_regulation_data (regs ! i) pd vd"
      by (simp add: hard_result_def)
    from v r d show ?thesis
      by (simp add: hard_result_def map_of_extract_full)
  qed
  with c l show ?thesis by blast
qed


theorem batch_failure_falls_back_witness:
  "vendor_down (hard_regulation_prompts plain_prompt [insurance_regulation, disclosure_regulation]
                  lapsed_provider []) = Inl (LLMError ''connection refused'')
   \<and> provider_shape lapsed_provider
   \<and> (\<exists>results. check_hard_regulations plain_prompt vendor_down
                   [insurance_regulation, disclosure_regulation] lapsed_provider [] = Inr results
         \<and> length results = 2
         \<and> hr_regulation_id (results ! 0) = ''HR003''
         \<and> hr_regulation_name (results ! 0) = ''Malpractice Insurance''
         \<and> passed (results ! 0) = False
         \<and> failure_reason (results ! 0) = Some ''Failed to meet Malpractice Insurance requirements''
         \<and> map_of (hr_details (results ! 0)) ''PLIs''
             = Some (JDict [(''malpractice_insurance'', JStr ''Lapsed'')])
         \<and> map_of (hr_details (results ! 0)) ''Disclosure'' = None
         \<and> hr_regulation_id (results ! 1) = ''HR002''
         \<and> passed (results ! 1) = True
         \<and> failure_reason (results ! 1) = None)"
proof -
  let ?regs = "[insurance_regulation, disclosure_regulation]"
  have a: "vendor_down (hard_regulation_prompts plain_prompt ?regs lapsed_provider [])
             = Inl (LLMError ''connection refused'')"
    by (simp add: vendor_down_def)
  have b: "provider_shape lapsed_provider"
    by (simp add: provider_shape_def lapsed_provider_def)
  from batch_failure_falls_back
         [where batch = vendor_down and prompt_of = plain_prompt and regs = ?regs
            and pd = lapsed_provider and vd = "[]", OF a b]
  obtain results where
    c: "check_hard_regulations plain_prompt vendor_down ?regs lapsed_provider [] = Inr results"
    and l: "length results = length ?regs"
    and p: "\<forall>i<length ?regs. \<exists>b.
                 validate_hard_regulation (?regs ! i) (hr_details (results ! i)) = Inr b
                 \<and> passed (results ! i) = b
                 \<and> hr_regulation_id (results ! i) = reg_id (?regs ! i)
                 \<and> hr_regulation_name (results ! i) = reg_name (?regs ! i)
                 \<and> failure_reason (results ! i)
                     = (if b then None
                        else Some (''Failed to meet '' @ reg_name (?regs ! i) @ '' requirements''))
                 \<and> (\<forall>k. map_of (hr_details (results ! i)) k
                        = (if k = ''verification'' \<and> ([] :: pydict) \<noteq> [] then Some (JDict [])
                           else if k \<in> set (case data_fields (?regs ! i) of None \<Rightarrow> [] | Some fs \<Rightarrow> fs)
                                then map_of lapsed_provider k
                           else None))"
    by blast
  from p [THEN spec, of 0] have "\<exists>b. validate_hard_regulation (?regs ! 0) (hr_details (results ! 0)) = Inr b
                 \<and> passed (results ! 0) = b
                 \<and> hr_regulation_id (results ! 0) = reg_id (?regs ! 0)
                 \<and> hr_regulation_name (results ! 0) = reg_name (?regs ! 0)
                 \<and> failure_reason (results ! 0)
                     = (if b then None
                        else Some (''Failed to meet '' @ reg_name (?regs ! 0) @ '' requirements''))
                 \<and> (\<forall>k. map_of (hr_details (results ! 0)) k
                        = (if k = ''verification'' \<and> ([] :: pydict) \<noteq> [] then Some (JDict [])
                           else if k \<in> set (case data_fields (?regs ! 0) of None \<Rightarrow> [] | Some fs \<Rightarrow> fs)
                                then map_of lapsed_provider k
                           else None))"
    by simp
  then obtain b0 where
    v0: "validate_hard_regulation insurance_regulation (hr_details (results ! 0)) = Inr b0"
    and p0: "passed (results ! 0) = b0"
    and i0: "hr_regulation_id (results ! 0) = ''HR003''"
    and n0: "hr_regulation_name (results ! 0) = ''Malpractice Insurance''"
    and f0: "failure_reason (results ! 0)
         = (if b0 then None else Some (''Failed to meet '' @ ''Malpractice Insurance'' @ '' requirements''))"
    and m0: "\<forall>k. map_of (hr_details (results ! 0)) k
                 = (if k \<in> set [''PLIs''] then map_of lapsed_provider k else None)"
    by (auto simp: insurance_regulation_def)
  from m0 have plis: "map_of (hr_details (results ! 0)) ''PLIs''
             = Some (JDict [(''malpractice_insurance'', JStr ''Lapsed'')])"
    by (simp add: lapsed_provider_def)
  from m0 have disc: "map_of (hr_details (results ! 0)) ''Disclosure'' = None"
    by simp
  from plis have "validate_hard_regulation insurance_regulation (hr_details (results ! 0)) = Inr False"
    by (simp add: validate_hard_regulation_def insurance_regulation_def has_key_def
        check_disciplinary_actions_def check_malpractice_insurance_def dict_get_def bind_exn_def)
  with v0 have b0: "b0 = False" by simp
  from p [THEN spec, of 1] have "\<exists>b. validate_hard_regulation (?regs ! 1) (hr_details (results ! 1)) = Inr b
                 \<and> passed (results ! 1) = b
                 \<and> hr_regulation_id (results ! 1) = reg_id (?regs ! 1)
                 \<and> hr_regulation_name (results ! 1) = reg_name (?regs ! 1)
                 \<and> failure_reason (results ! 1)
                     = (if b then None
                        else Some (''Failed to meet '' @ reg_name (?regs ! 1) @ '' requirements''))
                 \<and> (\<forall>k. map_of (hr_details (results ! 1)) k
                        = (if k = ''verification'' \<and> ([] :: pydict) \<noteq> [] then Some (JDict [])
                           else if k \<in> set (case data_fields (?regs ! 1) of None \<Rightarrow> [] | Some fs \<Rightarrow> fs)
                                then map_of lapsed_provider k
                           else None))"
    by simp
  then obtain b1 where
    v1: "validate_hard_regulation disclosure_regulation (hr_details (results ! 1)) = Inr b1"
    and p1: "passed (results ! 1) = b1"
    and i1: "hr_regulation_id (results ! 1) = ''HR002''"
    and f1: "failure_reason (results ! 1)
         = (if b1 then None else Some (''Failed to meet '' @ ''Disciplinary Actions'' @ '' requirements''))"
    and m1: "\<forall>k. map_of (hr_details (results ! 1)) k
                 = (if k \<in> set [''Disclosure''] then map_of lapsed_provider k else None)"
    by (auto simp: disclosure_regulation_def)
  from m1 have d1: "map_of (hr_details (results ! 1)) ''Disclosure''
      = Some (JDict [(''disciplinary_actions'', JList []), (''criminal_record'', JStr ''Clean'')])"
    "map_of (hr_details (results ! 1)) ''PLIs'' = None"
    "map_of (hr_details (results ! 1)) ''BoardCertifications'' = None"
    "map_of (hr_details (results ! 1)) ''ProfessionalIds'' = None"
    by (simp_all add: lapsed_provider_def)
  from d1 have "validate_hard_regulation disclosure_regulation (hr_details (results ! 1)) = Inr True"
    by (simp add: validate_hard_regulation_def disclosure_regulation_def has_key_def
        check_disciplinary_actions_def check_malpractice_insurance_def check_board_certification_def
        check_criminal_record_def dict_get_def bind_exn_def py_len_def)
  with v1 have b1: "b1 = True" by simp
  from l have l2: "length results = 2" by simp
  from a b c l2 p0 i0 n0 f0 b0 plis disc p1 i1 f1 b1 show ?thesis by auto
qed

section \<open>The orchestrator boundary\<close>






end
